theory Spec2Isabelle
  imports Complex_Main "HOL-Library.Char_ord" "HOL-Library.List_Lexorder"
    "HOL-Library.Multiset"
begin

section \<open>Data model of compoundingMachine.ts\<close>

text \<open>
  Numbers. A TypeScript \<^verbatim>\<open>number\<close> is modelled as a \<^typ>\<open>real\<close>: the finite
  doubles, with exact arithmetic. An optional field \<^verbatim>\<open>f?: number\<close> is a
  \<^typ>\<open>real option\<close>, \<^verbatim>\<open>undefined\<close> being \<^term>\<open>None\<close>. Every numeric field of a snapshot
  is produced by \<^verbatim>\<open>toNumber\<close>, which lets only finite numbers through, so
  \<^verbatim>\<open>Number.isFinite\<close> holds of every number of the model. Counts (lengths, loop
  indices, interval counts) are natural numbers. The worker count of
  \<^verbatim>\<open>mapWithConcurrency\<close> comes from the command line unchecked: it is a number that may
  be \<^verbatim>\<open>NaN\<close> or infinite (\<open>jsnumber\<close> below).
\<close>

definition Number_isFinite :: "real \<Rightarrow> bool" where
  "Number_isFinite v = True"

text \<open>
  \<^verbatim>\<open>Math.pow(x, y)\<close>. For a strictly positive base it is the real power
  \<^term>\<open>x powr y\<close>; every call site of the file has a strictly positive base
  (see \<open>growthStats\<close> and \<open>computeDcf\<close>).
\<close>

definition Math_pow :: "real \<Rightarrow> real \<Rightarrow> real" where
  "Math_pow x y = x powr y"

text \<open>\<^verbatim>\<open>Math.round(x)\<close> is \<open>floor(x + 0.5)\<close>: halves are rounded up.\<close>

definition Math_round :: "real \<Rightarrow> int" where
  "Math_round x = \<lfloor>x + 1 / 2\<rfloor>"

text \<open>\<^verbatim>\<open>xs[xs.length - 1]\<close>: the last element, \<^verbatim>\<open>undefined\<close> on the empty array.\<close>

definition lastElem :: "'a list \<Rightarrow> 'a option" where
  "lastElem xs = (if xs = [] then None else Some (xs ! (length xs - 1)))"

text \<open>\<^verbatim>\<open>a ?? b\<close>: the left operand unless it is \<^verbatim>\<open>undefined\<close>.\<close>

definition nullish :: "'a option \<Rightarrow> 'a option \<Rightarrow> 'a option" where
  "nullish a b = (case a of Some v \<Rightarrow> Some v | None \<Rightarrow> b)"

text \<open>\<^verbatim>\<open>a ?? d\<close> with a right operand that is always defined.\<close>

definition nullishOr :: "'a option \<Rightarrow> 'a \<Rightarrow> 'a" where
  "nullishOr a d = (case a of Some v \<Rightarrow> v | None \<Rightarrow> d)"

text \<open>\<^verbatim>\<open>xs.slice(-n)\<close>: the last \<open>n\<close> elements, all of them when there are fewer.\<close>

definition sliceLast :: "nat \<Rightarrow> 'a list \<Rightarrow> 'a list" where
  "sliceLast n xs = drop (length xs - n) xs"

text \<open>
  Every time-series row type has a \<^verbatim>\<open>date: string\<close>; the generic functions take
  \<^verbatim>\<open>T extends { date: string }\<close>, which is an extensible record here.
\<close>

record dated =
  date :: string

record AnnualFinancialPoint = dated +
  totalRevenue :: "real option"
  netIncome :: "real option"
  dilutedEPS :: "real option"
  basicEPS :: "real option"
  dilutedAverageShares :: "real option"

record AnnualBalanceSheetPoint = dated +
  stockholdersEquity :: "real option"
  longTermDebt :: "real option"
  longTermDebtAndCapitalLeaseObligation :: "real option"
  totalDebt :: "real option"
  cashAndCashEquivalents :: "real option"
  cashCashEquivalentsAndShortTermInvestments :: "real option"

record AnnualCashFlowPoint = dated +
  operatingCashFlow :: "real option"
  capitalExpenditure :: "real option"
  freeCashFlow :: "real option"

record QuarterlySharesPoint = dated +
  ordinarySharesNumber :: "real option"
  shareIssued :: "real option"

record YieldYearPoint =
  year :: int
  yield :: real

record TickerSnapshot =
  schemaVersion :: int
  ticker :: string
  annualFinancials :: "AnnualFinancialPoint list"
  annualBalanceSheet :: "AnnualBalanceSheetPoint list"
  annualCashFlow :: "AnnualCashFlowPoint list"
  quarterlyShares :: "QuarterlySharesPoint list"
  operatingMargins :: "real option"
  dividendYield :: "real option"
  sharesOutstanding :: "real option"
  currentPrice :: "real option"
  marketCap :: "real option"
  yearlyDividendYields :: "YieldYearPoint list"

record GrowthStats =
  positiveCount :: nat
  intervals :: nat
  cagrPercent :: "real option"

record DcfResult =
  intrinsicValuePerShare :: "real option"
  upsidePercent :: "real option"

record YieldMetrics =
  currentYieldPercent :: "real option"
  avgYield5yPercent :: "real option"
  yieldVs5yAvgPercent :: "real option"

text \<open>
  The argument of \<^verbatim>\<open>computeCarlsonScore\<close> is an object with eight of the fields of
  a \<^verbatim>\<open>CompounderRow\<close>; the row extends it.
\<close>

record CarlsonScoreInput =
  revenueGrowth :: GrowthStats
  netIncomeGrowth :: GrowthStats
  epsGrowth :: GrowthStats
  roicPercent :: "real option"
  latestFcf :: "real option"
  fcfGrowthPercent :: "real option"
  sharesChange3yPercent :: "real option"
  operatingMarginPercent :: "real option"

record CompounderRow = CarlsonScoreInput +
  ticker :: string
  currentYieldPercent :: "real option"
  avgYield5yPercent :: "real option"
  yieldVs5yAvgPercent :: "real option"
  dcfIntrinsicValuePerShare :: "real option"
  dcfUpsidePercent :: "real option"
  carlsonQualityScore :: int

datatype Market = Us | Bk

text \<open>
  A JavaScript number that need not be finite. \<^verbatim>\<open>parseArgs\<close> stores
  \<^verbatim>\<open>Number(value)\<close> for \<^verbatim>\<open>--concurrency\<close> as it comes: \<^verbatim>\<open>NaN\<close> for a value that is not
  a numeric literal, an infinity for \<^verbatim>\<open>Infinity\<close> or \<^verbatim>\<open>1e999\<close>, a fraction for \<^verbatim>\<open>2.5\<close>.
\<close>

datatype jsnumber = Num real | NaN | PosInfinity | NegInfinity

datatype OutputFormat = Text | Json

record CliOptions =
  market :: Market
  tickers :: "string list option"
  maxTickers :: "real option"
  topN :: int
  concurrency :: jsnumber
  format :: OutputFormat
  dbPath :: string
  ttlDays :: real
  minRoic :: real
  minOperatingMargin :: real
  minBuybackPercent :: real
  showRejected :: bool

record FilterEvaluation =
  pass :: bool
  revenuePass :: bool
  netIncomePass :: bool
  roicPass :: bool
  buybackPass :: bool
  marginPass :: bool
  revenueRequired :: int
  netIncomeRequired :: int

text \<open>The defaults of \<^verbatim>\<open>parseArgs\<close>.\<close>

definition defaultOptions :: CliOptions where
  "defaultOptions =
     \<lparr> market = Us, tickers = None, maxTickers = None, topN = 25, concurrency = Num 4,
       format = Text, dbPath = ''sec_cache.db'', ttlDays = 7, minRoic = 15,
       minOperatingMargin = 20, minBuybackPercent = 2, showRejected = False \<rparr>"

section \<open>GrowthAnalyzer\<close>

text \<open>
  The counting loop of \<^verbatim>\<open>growthStats\<close>:
  \<^verbatim>\<open>for (let i = 1; i < values.length; i++) if (values[i] > values[i - 1]) positiveCount += 1\<close>.
\<close>

function growthLoop :: "real list \<Rightarrow> nat \<Rightarrow> nat \<Rightarrow> nat" where
  "growthLoop values i positives =
     (if i < length values
      then growthLoop values (i + 1)
             (if values ! i > values ! (i - 1) then positives + 1 else positives)
      else positives)"
  by pat_completeness auto
termination
  by (relation "measure (\<lambda>(values, i, positives). length values - i)") auto

declare growthLoop.simps [simp del]

definition growthStats :: "real list \<Rightarrow> GrowthStats" where
  "growthStats values =
     (if length values < 2
      then \<lparr> positiveCount = 0, intervals = 0, cagrPercent = None \<rparr>
      else
        let intervals = length values - 1;
            positiveCount = growthLoop values 1 0;
            first = values ! 0;
            last = values ! (length values - 1);
            cagrPercent =
              (if first > 0 \<and> last > 0 \<and> intervals > 0
               then Some ((Math_pow (last / first) (1 / real intervals) - 1) * 100)
               else None)
        in \<lparr> positiveCount = positiveCount, intervals = intervals,
             cagrPercent = cagrPercent \<rparr>)"

section \<open>ValuationEngine\<close>

definition computeRoicPercent :: "TickerSnapshot \<Rightarrow> real option" where
  "computeRoicPercent snapshot =
     (let latestBalance = lastElem (annualBalanceSheet snapshot);
          latestNetIncome =
            (case lastElem (annualFinancials snapshot) of
               None \<Rightarrow> None | Some f \<Rightarrow> netIncome f)
      in case (latestBalance, latestNetIncome) of
           (Some b, Some ni) \<Rightarrow>
             (let equity = stockholdersEquity b;
                  debt = nullishOr
                           (nullish (longTermDebtAndCapitalLeaseObligation b)
                              (nullish (longTermDebt b) (totalDebt b))) 0;
                  cash = nullishOr
                           (nullish (cashCashEquivalentsAndShortTermInvestments b)
                              (cashAndCashEquivalents b)) 0
              in case equity of
                   None \<Rightarrow> None
                 | Some e \<Rightarrow>
                     (let investedCapital = e + debt - cash
                      in if \<not> Number_isFinite investedCapital \<or> investedCapital \<le> 0
                         then None
                         else Some ((ni / investedCapital) * 100)))
         | _ \<Rightarrow> None)"

text \<open>
  The loop body of \<^verbatim>\<open>computeAnnualFcfSeries\<close> for one row: the value it pushes,
  or \<^term>\<open>None\<close> where it takes \<^verbatim>\<open>continue\<close> without pushing.
\<close>

definition fcfOfRow :: "AnnualCashFlowPoint \<Rightarrow> real option" where
  "fcfOfRow row =
     (case freeCashFlow row of
        Some fcfFromField \<Rightarrow>
          (if Number_isFinite fcfFromField then Some fcfFromField
           else (case (operatingCashFlow row, capitalExpenditure row) of
                   (Some ocf, Some capex) \<Rightarrow>
                     Some (if capex < 0 then ocf + capex else ocf - capex)
                 | _ \<Rightarrow> None))
      | None \<Rightarrow>
          (case (operatingCashFlow row, capitalExpenditure row) of
             (Some ocf, Some capex) \<Rightarrow>
               Some (if capex < 0 then ocf + capex else ocf - capex)
           | _ \<Rightarrow> None))"

fun fcfLoop :: "AnnualCashFlowPoint list \<Rightarrow> real list \<Rightarrow> real list" where
  "fcfLoop [] values = values"
| "fcfLoop (row # rows) values =
     (case fcfOfRow row of
        None \<Rightarrow> fcfLoop rows values
      | Some v \<Rightarrow> fcfLoop rows (values @ [v]))"

definition computeAnnualFcfSeries :: "TickerSnapshot \<Rightarrow> real list" where
  "computeAnnualFcfSeries snapshot = fcfLoop (annualCashFlow snapshot) []"

text \<open>
  The filters on a series of optional numbers, in \<^verbatim>\<open>buildRow\<close> and
  \<^verbatim>\<open>computeSharesChange3y\<close>:
  \<^verbatim>\<open>.filter(v !== undefined && Number.isFinite(v) && v > 0)\<close> for revenue and share
  counts, and the same without \<^verbatim>\<open>v > 0\<close> for net income and earnings per share.
\<close>

definition positiveDefined :: "real option list \<Rightarrow> real list" where
  "positiveDefined vs =
     map the (filter (\<lambda>v. v \<noteq> None \<and> Number_isFinite (the v) \<and> the v > 0) vs)"

definition finiteDefined :: "real option list \<Rightarrow> real list" where
  "finiteDefined vs = map the (filter (\<lambda>v. v \<noteq> None \<and> Number_isFinite (the v)) vs)"

definition computeSharesChange3y :: "TickerSnapshot \<Rightarrow> real option" where
  "computeSharesChange3y snapshot =
     (let quarterlySeries =
            positiveDefined
              (map (\<lambda>q. nullish (ordinarySharesNumber q) (shareIssued q))
                 (quarterlyShares snapshot));
          annualShareSeries =
            positiveDefined (map dilutedAverageShares (annualFinancials snapshot))
      in if length quarterlySeries \<ge> 13
            \<and> quarterlySeries ! (length quarterlySeries - 13) > 0
         then Some ((quarterlySeries ! (length quarterlySeries - 1)
                      / quarterlySeries ! (length quarterlySeries - 13) - 1) * 100)
         else if length annualShareSeries \<ge> 4
            \<and> annualShareSeries ! (length annualShareSeries - 4) > 0
         then Some ((annualShareSeries ! (length annualShareSeries - 1)
                      / annualShareSeries ! (length annualShareSeries - 4) - 1) * 100)
         else None)"

definition computeOperatingMarginPercent :: "TickerSnapshot \<Rightarrow> real option" where
  "computeOperatingMarginPercent snapshot =
     (case operatingMargins snapshot of
        None \<Rightarrow> None
      | Some v \<Rightarrow> Some (if v \<le> 1 then v * 100 else v))"

definition computeYieldMetrics :: "TickerSnapshot \<Rightarrow> YieldMetrics" where
  "computeYieldMetrics snapshot =
     (let currentYieldPercent =
            (case dividendYield snapshot of
               Some d \<Rightarrow> Some (if d \<le> 1 then d * 100 else d)
             | None \<Rightarrow> None);
          yields = filter (\<lambda>x. x \<ge> 0) (map yield (yearlyDividendYields snapshot));
          avgYield =
            (if length yields > 0
             then Some (foldl (\<lambda>a b. a + b) 0 yields / real (length yields))
             else None);
          avgYield5yPercent = (case avgYield of Some a \<Rightarrow> Some (a * 100) | None \<Rightarrow> None);
          yieldVs5yAvgPercent =
            (case (currentYieldPercent, avgYield5yPercent) of
               (Some c, Some a) \<Rightarrow> Some (c - a)
             | _ \<Rightarrow> None)
      in \<lparr> YieldMetrics.currentYieldPercent = currentYieldPercent,
           YieldMetrics.avgYield5yPercent = avgYield5yPercent,
           YieldMetrics.yieldVs5yAvgPercent = yieldVs5yAvgPercent \<rparr>)"

definition clamp :: "'a::linorder \<Rightarrow> 'a \<Rightarrow> 'a \<Rightarrow> 'a" where
  "clamp v lo hi = max lo (min hi v)"

text \<open>
  The share count \<^verbatim>\<open>computeDcf\<close> divides by: the reported figure, else the latest
  quarterly row's \<^verbatim>\<open>ordinarySharesNumber\<close>, else its \<^verbatim>\<open>shareIssued\<close>.
\<close>

definition dcfShares :: "TickerSnapshot \<Rightarrow> real option" where
  "dcfShares snapshot =
     nullish (sharesOutstanding snapshot)
       (nullish
          (case lastElem (quarterlyShares snapshot) of
             None \<Rightarrow> None | Some q \<Rightarrow> ordinarySharesNumber q)
          (case lastElem (quarterlyShares snapshot) of
             None \<Rightarrow> None | Some q \<Rightarrow> shareIssued q))"

text \<open>The growth rate of \<^verbatim>\<open>computeDcf\<close> before the clamp, and after it.\<close>

definition dcfRawGrowth :: "real list \<Rightarrow> real" where
  "dcfRawGrowth fcfSeries =
     (let trailing = filter (\<lambda>v. v > 0) (sliceLast 3 fcfSeries)
      in if length trailing \<ge> 2
         then (let first = trailing ! 0;
                   last = trailing ! (length trailing - 1);
                   periods = length trailing - 1
               in Math_pow (last / first) (1 / real periods) - 1)
         else 0.04)"

definition dcfGrowth :: "real list \<Rightarrow> real" where
  "dcfGrowth fcfSeries = clamp (dcfRawGrowth fcfSeries) (-0.05) 0.20"

text \<open>
  The growth rate in the words of the specification, for comparison with the code: the
  compound rate of the trailing up to three positive points of the series when there are
  at least two positive points, and 4% otherwise, clamped. It takes the positive points
  first and the last three of them then; \<^verbatim>\<open>computeDcf\<close> takes the last three points first
  and the positive ones among them then.
\<close>

definition claimedDcfGrowth :: "real list \<Rightarrow> real" where
  "claimedDcfGrowth fcfSeries =
     (let trailing = sliceLast 3 (filter (\<lambda>v. v > 0) fcfSeries)
      in clamp
           (if length trailing \<ge> 2
            then (last trailing / hd trailing) powr (1 / real (length trailing - 1)) - 1
            else 0.04)
           (- 0.05) 0.20)"

text \<open>
  The projection loop \<^verbatim>\<open>for (let year = 1; year <= 10; year++)\<close>, on the pair
  \<open>(pv, projectedFcf)\<close>.
\<close>

function dcfLoop :: "real \<Rightarrow> real \<Rightarrow> nat \<Rightarrow> real \<Rightarrow> real \<Rightarrow> real \<times> real" where
  "dcfLoop growth discountRate yr pv projectedFcf =
     (if yr \<le> 10
      then (let projectedFcf' = projectedFcf * (1 + growth)
            in dcfLoop growth discountRate (yr + 1)
                 (pv + projectedFcf' / Math_pow (1 + discountRate) (real yr))
                 projectedFcf')
      else (pv, projectedFcf))"
  by pat_completeness auto
termination
  by (relation "measure (\<lambda>(growth, discountRate, yr, pv, projectedFcf). 11 - yr)") auto

declare dcfLoop.simps [simp del]

definition computeDcf :: "TickerSnapshot \<Rightarrow> real list \<Rightarrow> DcfResult" where
  "computeDcf snapshot fcfSeries =
     (if length fcfSeries < 2
      then \<lparr> intrinsicValuePerShare = None, upsidePercent = None \<rparr>
      else
        case (lastElem fcfSeries, dcfShares snapshot) of
          (Some latest, Some shares) \<Rightarrow>
            (if latest \<le> 0 \<or> shares \<le> 0
             then \<lparr> intrinsicValuePerShare = None, upsidePercent = None \<rparr>
             else
               let growth = dcfGrowth fcfSeries;
                   discountRate = 0.10;
                   terminalGrowth = 0.025;
                   (pv, projectedFcf) = dcfLoop growth discountRate 1 0 latest;
                   terminalValue =
                     (projectedFcf * (1 + terminalGrowth))
                       / max 0.0001 (discountRate - terminalGrowth);
                   discountedTerminal = terminalValue / Math_pow (1 + discountRate) 10;
                   intrinsicEquityValue = pv + discountedTerminal;
                   perShare = intrinsicEquityValue / shares
               in if \<not> Number_isFinite perShare \<or> perShare \<le> 0
                  then \<lparr> intrinsicValuePerShare = None, upsidePercent = None \<rparr>
                  else \<lparr> intrinsicValuePerShare = Some perShare,
                         upsidePercent =
                           (case currentPrice snapshot of
                              Some p \<Rightarrow>
                                (if p \<noteq> 0 \<and> p > 0
                                 then Some ((perShare / p - 1) * 100) else None)
                            | None \<Rightarrow> None) \<rparr>)
        | _ \<Rightarrow> \<lparr> intrinsicValuePerShare = None, upsidePercent = None \<rparr>)"

section \<open>QualityScorer and FilterEvaluator\<close>

definition normalizedGrowthScore :: "GrowthStats \<Rightarrow> real \<Rightarrow> real" where
  "normalizedGrowthScore stats weight =
     (if intervals stats \<le> 0 then 0
      else (real (positiveCount stats) / real (intervals stats)) * weight)"

definition computeCarlsonScore :: "CarlsonScoreInput \<Rightarrow> int" where
  "computeCarlsonScore input =
     (let score = 0;
          score = score + normalizedGrowthScore (revenueGrowth input) 20;
          score = score + normalizedGrowthScore (netIncomeGrowth input) 20;
          score = score + normalizedGrowthScore (epsGrowth input) 10;
          score = (case roicPercent input of
                     Some r \<Rightarrow> score + clamp ((r - 5) / 20) 0 1 * 20
                   | None \<Rightarrow> score);
          score = (case latestFcf input of
                     Some f \<Rightarrow> (if f > 0 then score + 5 else score)
                   | None \<Rightarrow> score);
          score = (case fcfGrowthPercent input of
                     Some g \<Rightarrow> score + clamp ((g + 5) / 20) 0 1 * 5
                   | None \<Rightarrow> score);
          score = (case sharesChange3yPercent input of
                     Some c \<Rightarrow> score + clamp ((- c) / 8) 0 1 * 10
                   | None \<Rightarrow> score);
          score = (case operatingMarginPercent input of
                     Some m \<Rightarrow> score + clamp ((m - 10) / 20) 0 1 * 10
                   | None \<Rightarrow> score)
      in clamp (Math_round score) 1 100)"

definition buildRow :: "TickerSnapshot \<Rightarrow> CompounderRow" where
  "buildRow snapshot =
     (let revenueSeries =
            sliceLast 6 (positiveDefined (map totalRevenue (annualFinancials snapshot)));
          netIncomeSeries =
            sliceLast 6 (finiteDefined (map netIncome (annualFinancials snapshot)));
          epsSeries =
            sliceLast 6
              (finiteDefined
                 (map (\<lambda>f. nullish (dilutedEPS f) (basicEPS f)) (annualFinancials snapshot)));
          revenueG = growthStats revenueSeries;
          netIncomeG = growthStats netIncomeSeries;
          epsG = growthStats epsSeries;
          roic = computeRoicPercent snapshot;
          fcfSeries = computeAnnualFcfSeries snapshot;
          latest = lastElem fcfSeries;
          fcfGrowth = growthStats (sliceLast 4 fcfSeries);
          sharesChange = computeSharesChange3y snapshot;
          operatingMargin = computeOperatingMarginPercent snapshot;
          yieldMetrics = computeYieldMetrics snapshot;
          dcf = computeDcf snapshot fcfSeries;
          score =
            computeCarlsonScore
              \<lparr> revenueGrowth = revenueG, netIncomeGrowth = netIncomeG, epsGrowth = epsG,
                roicPercent = roic, latestFcf = latest,
                fcfGrowthPercent = cagrPercent fcfGrowth,
                sharesChange3yPercent = sharesChange,
                operatingMarginPercent = operatingMargin \<rparr>
      in \<lparr> revenueGrowth = revenueG, netIncomeGrowth = netIncomeG, epsGrowth = epsG,
           roicPercent = roic, latestFcf = latest,
           fcfGrowthPercent = cagrPercent fcfGrowth,
           sharesChange3yPercent = sharesChange,
           operatingMarginPercent = operatingMargin,
           ticker = TickerSnapshot.ticker snapshot,
           currentYieldPercent = YieldMetrics.currentYieldPercent yieldMetrics,
           avgYield5yPercent = YieldMetrics.avgYield5yPercent yieldMetrics,
           yieldVs5yAvgPercent = YieldMetrics.yieldVs5yAvgPercent yieldMetrics,
           dcfIntrinsicValuePerShare = intrinsicValuePerShare dcf,
           dcfUpsidePercent = upsidePercent dcf,
           carlsonQualityScore = score \<rparr>)"

definition requiredFromIntervals :: "nat \<Rightarrow> int" where
  "requiredFromIntervals n = max 1 (Math_round (real n * 0.8))"

definition evaluateCarlsonFilters :: "CompounderRow \<Rightarrow> CliOptions \<Rightarrow> FilterEvaluation" where
  "evaluateCarlsonFilters row options =
     (let revenueReq = requiredFromIntervals (intervals (revenueGrowth row));
          netIncomeReq = requiredFromIntervals (intervals (netIncomeGrowth row));
          revenueOk =
            (intervals (revenueGrowth row) \<ge> 3
               \<and> int (positiveCount (revenueGrowth row)) \<ge> revenueReq);
          netIncomeOk =
            (intervals (netIncomeGrowth row) \<ge> 3
               \<and> int (positiveCount (netIncomeGrowth row)) \<ge> netIncomeReq);
          roicOk =
            (case roicPercent row of
               Some r \<Rightarrow> r > minRoic options | None \<Rightarrow> False);
          buybackOk =
            (case sharesChange3yPercent row of
               Some c \<Rightarrow> c \<le> - \<bar>minBuybackPercent options\<bar> | None \<Rightarrow> False);
          marginOk =
            (case operatingMarginPercent row of
               Some m \<Rightarrow> m > minOperatingMargin options | None \<Rightarrow> False)
      in \<lparr> pass = revenueOk \<and> netIncomeOk \<and> roicOk \<and> buybackOk \<and> marginOk,
           revenuePass = revenueOk,
           netIncomePass = netIncomeOk,
           roicPass = roicOk,
           buybackPass = buybackOk,
           marginPass = marginOk,
           revenueRequired = revenueReq,
           netIncomeRequired = netIncomeReq \<rparr>)"

section \<open>MetricsDeriver: de-duplication by date\<close>

text \<open>
  \<^verbatim>\<open>dedupeByDate\<close> fills a \<^verbatim>\<open>Map<string, T>\<close> and sorts its values. A JavaScript
  \<^verbatim>\<open>Map\<close> iterates in the order in which its keys were first inserted, and
  \<^verbatim>\<open>map.set\<close> on a key that is present replaces the value in place. The map is an
  association list here: \<open>Map_set\<close> replaces in place or appends.
\<close>

fun Map_set :: "(string \<times> 'v) list \<Rightarrow> string \<Rightarrow> 'v \<Rightarrow> (string \<times> 'v) list" where
  "Map_set [] k v = [(k, v)]"
| "Map_set ((k', v') # entries) k v =
     (if k' = k then (k', v) # entries else (k', v') # Map_set entries k v)"

text \<open>The loop \<^verbatim>\<open>for (const row of rows) map.set(row.date, row)\<close>.\<close>

fun dedupeLoop ::
  "(string \<times> 'a dated_scheme) list \<Rightarrow> 'a dated_scheme list
     \<Rightarrow> (string \<times> 'a dated_scheme) list" where
  "dedupeLoop m [] = m"
| "dedupeLoop m (row # rows) = dedupeLoop (Map_set m (date row) row) rows"

text \<open>
  \<^verbatim>\<open>rows.sort((a, b) => a.date.localeCompare(b.date))\<close>. The sort of the language is
  stable, as \<^term>\<open>sort_key\<close> is. The comparator is taken to be the lexicographic order
  of the strings, with which \<^verbatim>\<open>localeCompare\<close> agrees on the canonical
  \<^verbatim>\<open>YYYY-MM-DD\<close> dates that \<^verbatim>\<open>normalizeDate\<close> produces.
\<close>

definition sortByDateAsc :: "'a dated_scheme list \<Rightarrow> 'a dated_scheme list" where
  "sortByDateAsc rows = sort_key date rows"

definition dedupeByDate :: "'a dated_scheme list \<Rightarrow> 'a dated_scheme list" where
  "dedupeByDate rows = sortByDateAsc (map snd (dedupeLoop [] rows))"

section \<open>SnapshotCache\<close>

text \<open>
  A call either returns a value or throws; the string names the exception.
\<close>

datatype 'a outcome = Returns 'a | Throws string

text \<open>
  A row of the table \<^verbatim>\<open>compounder_data\<close>, seen through the two library calls that
  read it. \<^verbatim>\<open>JSON.parse(row.payload_json)\<close> yields the snapshot that
  \<^verbatim>\<open>JSON.stringify\<close> wrote, or throws a \<^verbatim>\<open>SyntaxError\<close> on a text that is not
  JSON (\<open>Unparsable\<close>). \<^verbatim>\<open>new Date(row.fetched_at).getTime()\<close> is a time in
  milliseconds, or \<^verbatim>\<open>NaN\<close> on a text that is not a date (\<^term>\<open>None\<close>).
\<close>

datatype stored_payload = Payload TickerSnapshot | Unparsable

record CacheRow =
  payload_json :: stored_payload
  fetched_at :: "real option"

text \<open>
  The cache object: its database handle (\<^verbatim>\<open>null\<close> after \<^verbatim>\<open>close\<close>), whose one
  table maps the primary key \<^verbatim>\<open>ticker\<close> to its row, and its time to live.
\<close>

record CompounderDataCache =
  db :: "(string \<rightharpoonup> CacheRow) option"
  ttlMs :: real

definition newCache :: "(string \<rightharpoonup> CacheRow) \<Rightarrow> real \<Rightarrow> CompounderDataCache" where
  "newCache table days = \<lparr> db = Some table, ttlMs = days * 24 * 60 * 60 * 1000 \<rparr>"

text \<open>
  \<^verbatim>\<open>age > this.ttlMs\<close> with \<^verbatim>\<open>age = Date.now() - new Date(row.fetched_at).getTime()\<close>;
  a comparison with \<^verbatim>\<open>NaN\<close> is false.
\<close>

definition stale :: "CompounderDataCache \<Rightarrow> real \<Rightarrow> CacheRow \<Rightarrow> bool" where
  "stale c now row = (case fetched_at row of Some ts \<Rightarrow> now - ts > ttlMs c | None \<Rightarrow> False)"

text \<open>
  \<^verbatim>\<open>CompounderDataCache.get\<close> at the time \<open>now\<close>. Its \<^verbatim>\<open>try\<close> has a
  \<^verbatim>\<open>finally\<close> and no \<^verbatim>\<open>catch\<close>: what \<^verbatim>\<open>JSON.parse\<close> throws leaves the method.
  The database is taken to be opened and its statements to run; a failure of the
  database library itself would leave the method in the same way.
\<close>

definition CompounderDataCache_get ::
  "CompounderDataCache \<Rightarrow> real \<Rightarrow> string \<Rightarrow> TickerSnapshot option outcome" where
  "CompounderDataCache_get c now t =
     (case db c of
        None \<Rightarrow> Returns None
      | Some table \<Rightarrow>
          (case table t of
             None \<Rightarrow> Returns None
           | Some row \<Rightarrow>
               (if stale c now row
                then Returns None
                else (case payload_json row of
                        Payload snapshot \<Rightarrow> Returns (Some snapshot)
                      | Unparsable \<Rightarrow> Throws ''SyntaxError''))))"

definition CompounderDataCache_set ::
  "CompounderDataCache \<Rightarrow> real \<Rightarrow> string \<Rightarrow> TickerSnapshot \<Rightarrow> CompounderDataCache" where
  "CompounderDataCache_set c now t snapshot =
     (case db c of
        None \<Rightarrow> c
      | Some table \<Rightarrow>
          c\<lparr> db := Some (table(t \<mapsto> \<lparr> payload_json = Payload snapshot,
                                        fetched_at = Some now \<rparr>)) \<rparr>)"

section \<open>RetryingFetcher\<close>

text \<open>
  \<^verbatim>\<open>fetchFromApi\<close> talks to the data source. It starts its six requests, then awaits
  \<^verbatim>\<open>sleep(this.requestDelayMs)\<close>, and only then gives the six promises to
  \<^verbatim>\<open>Promise.all\<close> and awaits the result. What the data source does at one call is an
  input of the model: for each request, in the order of the array given to
  \<^verbatim>\<open>Promise.all\<close>, whether it fulfils or rejects, with which message and how many
  milliseconds after the call has started it; and the snapshot that the call builds from
  the six results when all of them are there. Every request is taken to settle.
\<close>

datatype request = Fulfils | Rejects string real

record ApiCall =
  requests :: "request list"
  normalised :: TickerSnapshot

text \<open>
  The result of a call of \<^verbatim>\<open>fetchFromApi\<close>: the snapshot, or the error thrown, together
  with the rejections that no handler has taken.
\<close>

datatype api_result = ApiData TickerSnapshot | ApiError string "string list"

fun earlyOf :: "api_result \<Rightarrow> string list" where
  "earlyOf (ApiData snapshot) = []"
| "earlyOf (ApiError message early) = early"

record FetchTrace =
  apiCalls :: nat
  sleeps :: "int list"
  errorLog :: "string list"
  unhandled :: "string list"

record StockDataFetcher =
  cache :: CompounderDataCache
  requestDelayMs :: real
  maxRetries :: nat

fun rejections :: "request list \<Rightarrow> (string \<times> real) list" where
  "rejections [] = []"
| "rejections (Fulfils # rs) = rejections rs"
| "rejections (Rejects message time # rs) = (message, time) # rejections rs"

text \<open>
  \<^verbatim>\<open>fetchFromApi\<close>. With no rejection the snapshot is returned. A request that rejects
  before \<^verbatim>\<open>requestDelayMs\<close> have passed does so while the call is in its \<^verbatim>\<open>sleep\<close>: no
  handler is attached to its promise at that time, \<^verbatim>\<open>Promise.all\<close> not having been
  called, so it is an unhandled rejection, which the runtime is told of and which no
  \<^verbatim>\<open>catch\<close> of the program sees. The program installs no handler for such rejections,
  and a runtime such as Node.js by default ends the process on one. What the runtime does
  is not part of the model: the rejections are recorded and the model goes on with what
  the program does as long as it runs. \<^verbatim>\<open>Promise.all\<close> then rejects with the first
  rejection it sees: of the promises already rejected when it is called the first one in
  the array, and otherwise the one that rejects first; \<^verbatim>\<open>await\<close> throws it. A rejection
  after the delay has the handler of \<^verbatim>\<open>Promise.all\<close>.
\<close>

definition fetchFromApi :: "StockDataFetcher \<Rightarrow> ApiCall \<Rightarrow> api_result" where
  "fetchFromApi fetcher c =
     (let rejected = rejections (requests c);
          early = filter (\<lambda>(message, time). time < requestDelayMs fetcher) rejected
      in if rejected = [] then ApiData (normalised c)
         else if early \<noteq> [] then ApiError (fst (hd early)) (map fst early)
         else ApiError (fst (arg_min_list snd rejected)) [])"

text \<open>
  The values of \<^verbatim>\<open>Math.random()\<close> are inputs as well. What the fetcher does to the
  outside is recorded in a trace: the number of calls of \<^verbatim>\<open>fetchFromApi\<close>, the delays
  passed to \<^verbatim>\<open>sleep\<close> between attempts, the lines written by \<^verbatim>\<open>console.error\<close>,
  and the unhandled rejections.
\<close>

definition failureLine :: "string \<Rightarrow> string \<Rightarrow> string" where
  "failureLine t message = ''  '' @ t @ '': failed after retries ('' @ message @ '')''"

text \<open>The loop \<^verbatim>\<open>while (attempt <= this.maxRetries)\<close> of \<^verbatim>\<open>fetchWithRetry\<close>.\<close>

function fetchLoop ::
  "StockDataFetcher \<Rightarrow> string \<Rightarrow> (nat \<Rightarrow> ApiCall) \<Rightarrow> (nat \<Rightarrow> real) \<Rightarrow> nat \<Rightarrow> FetchTrace
     \<Rightarrow> TickerSnapshot option \<times> FetchTrace" where
  "fetchLoop fetcher t api rnd attempt tr =
     (if attempt \<le> maxRetries fetcher
      then (case fetchFromApi fetcher (api attempt) of
              ApiData data \<Rightarrow> (Some data, tr\<lparr>apiCalls := apiCalls tr + 1\<rparr>)
            | ApiError message early \<Rightarrow>
                (let isLast = attempt \<ge> maxRetries fetcher
                 in if isLast
                    then (None, tr\<lparr>apiCalls := apiCalls tr + 1,
                                   errorLog := errorLog tr @ [failureLine t message],
                                   unhandled := unhandled tr @ early\<rparr>)
                    else
                      (let backoff =
                             Math_round (requestDelayMs fetcher * Math_pow 2 (real attempt)
                                          + rnd attempt * 250)
                       in fetchLoop fetcher t api rnd (attempt + 1)
                            (tr\<lparr>apiCalls := apiCalls tr + 1,
                                sleeps := sleeps tr @ [backoff],
                                unhandled := unhandled tr @ early\<rparr>))))
      else (None, tr))"
  by pat_completeness auto
termination
  by (relation "measure (\<lambda>(fetcher, t, api, rnd, attempt, tr). maxRetries fetcher + 1 - attempt)")
    auto

declare fetchLoop.simps [simp del]

definition fetchWithRetry ::
  "StockDataFetcher \<Rightarrow> string \<Rightarrow> (nat \<Rightarrow> ApiCall) \<Rightarrow> (nat \<Rightarrow> real)
     \<Rightarrow> TickerSnapshot option \<times> FetchTrace" where
  "fetchWithRetry fetcher t api rnd =
     fetchLoop fetcher t api rnd 0 \<lparr> apiCalls = 0, sleeps = [], errorLog = [], unhandled = [] \<rparr>"

text \<open>
  \<^verbatim>\<open>fetchTickerSnapshot\<close>: the cache is read at the time \<open>now\<close> and written at the
  time \<open>later\<close>. The result is the outcome, the fetcher with its cache, and the trace.
\<close>

definition fetchTickerSnapshot ::
  "StockDataFetcher \<Rightarrow> real \<Rightarrow> real \<Rightarrow> string \<Rightarrow> (nat \<Rightarrow> ApiCall) \<Rightarrow> (nat \<Rightarrow> real)
     \<Rightarrow> TickerSnapshot option outcome \<times> StockDataFetcher \<times> FetchTrace" where
  "fetchTickerSnapshot fetcher now later t api rnd =
     (case CompounderDataCache_get (cache fetcher) now t of
        Throws e \<Rightarrow> (Throws e, fetcher, \<lparr> apiCalls = 0, sleeps = [], errorLog = [], unhandled = [] \<rparr>)
      | Returns cached \<Rightarrow>
          (if cached \<noteq> None \<and> schemaVersion (the cached) = 1
           then (Returns cached, fetcher, \<lparr> apiCalls = 0, sleeps = [], errorLog = [], unhandled = [] \<rparr>)
           else
             (case fetchWithRetry fetcher t api rnd of
                (Some snapshot, tr) \<Rightarrow>
                  (Returns (Some snapshot),
                   fetcher\<lparr>cache := CompounderDataCache_set (cache fetcher) later t snapshot\<rparr>,
                   tr)
              | (None, tr) \<Rightarrow> (Returns None, fetcher, tr))))"



text \<open>The delay slept after the failed attempt \<open>i\<close>, with the power written as \<open>2 ^ i\<close>.\<close>

definition backoffDelay :: "StockDataFetcher \<Rightarrow> (nat \<Rightarrow> real) \<Rightarrow> nat \<Rightarrow> int" where
  "backoffDelay fetcher rnd i = Math_round (requestDelayMs fetcher * 2 ^ i + rnd i * 250)"

section \<open>ConcurrencyLimiter\<close>

text \<open>
  \<^verbatim>\<open>mapWithConcurrency\<close> starts \<^verbatim>\<open>Math.max(1, concurrency)\<close> asynchronous runners
  over the shared variable \<^verbatim>\<open>nextIndex\<close> and awaits them all. JavaScript runs one
  task at a time and switches only at an \<^verbatim>\<open>await\<close>, so a runner goes through its
  loop test, \<^verbatim>\<open>nextIndex++\<close> and the call of the worker without interruption, and
  is suspended until the promise of the worker settles. A run of the pool is therefore a
  sequence of events, each of one runner:
  \<^item> \<open>Resume k\<close>: runner \<open>k\<close>, ready to run, tests the loop condition and either claims
    the next index and calls the worker on it, or leaves the loop;
  \<^item> \<open>Settle k ok\<close>: the promise awaited by runner \<open>k\<close> settles, fulfilled
    (\<open>ok\<close>) or rejected. A rejection leaves the runner's function, which has no
    handler, and rejects the runner.
  Every order of events is allowed: the model fixes neither which runner moves nor how
  long a worker takes. The state records the calls of the worker, in order, and the
  indices whose worker has fulfilled.

  The worker count is a JavaScript number, any value of it. \<^verbatim>\<open>Math.max\<close> is
  \<^verbatim>\<open>NaN\<close> when an argument is. \<^verbatim>\<open>Array.from({ length: n }, f)\<close> reads the length with
  \<^verbatim>\<open>ToLength\<close>, which takes \<^verbatim>\<open>NaN\<close> and everything below 1 to 0 and cuts off the
  fraction of the rest, and throws a \<^verbatim>\<open>RangeError\<close> for a length above \<open>2 ^ 32 - 1\<close>,
  before it calls \<^verbatim>\<open>f\<close> at all. The exception rejects the promise of
  \<^verbatim>\<open>mapWithConcurrency\<close>.
\<close>

fun Math_max :: "jsnumber \<Rightarrow> jsnumber \<Rightarrow> jsnumber" where
  "Math_max NaN y = NaN"
| "Math_max x NaN = NaN"
| "Math_max PosInfinity y = PosInfinity"
| "Math_max x PosInfinity = PosInfinity"
| "Math_max NegInfinity y = y"
| "Math_max x NegInfinity = x"
| "Math_max (Num a) (Num b) = Num (max a b)"

fun Array_from_length :: "jsnumber \<Rightarrow> nat outcome" where
  "Array_from_length NaN = Returns 0"
| "Array_from_length NegInfinity = Returns 0"
| "Array_from_length PosInfinity = Throws ''RangeError''"
| "Array_from_length (Num r) =
     (let len = nat \<lfloor>r\<rfloor>
      in if len > 2 ^ 32 - 1 then Throws ''RangeError'' else Returns len)"

datatype runner = Ready | Awaiting nat | Finished | Rejected

datatype event = Resume nat | Settle nat bool

datatype promise = Pending | Fulfilled | Failed

record 'a PoolState =
  nextIndex :: nat
  runners :: "runner list"
  calls :: "('a \<times> nat) list"
  settled :: "nat list"

text \<open>The pool when \<^verbatim>\<open>Array.from\<close> has made \<open>n\<close> runners, none of which has moved.\<close>

definition startPool :: "nat \<Rightarrow> 'a PoolState" where
  "startPool n = \<lparr> nextIndex = 0, runners = replicate n Ready, calls = [], settled = [] \<rparr>"

fun poolStep :: "'a list \<Rightarrow> 'a PoolState \<Rightarrow> event \<Rightarrow> 'a PoolState" where
  "poolStep items p (Resume k) =
     (if k < length (runners p) \<and> runners p ! k = Ready
      then (if nextIndex p < length items
            then (let current = nextIndex p
                  in p\<lparr> nextIndex := current + 1,
                        runners := (runners p)[k := Awaiting current],
                        calls := calls p @ [(items ! current, current)] \<rparr>)
            else p\<lparr> runners := (runners p)[k := Finished] \<rparr>)
      else p)"
| "poolStep items p (Settle k ok) =
     (if k < length (runners p)
      then (case runners p ! k of
              Awaiting i \<Rightarrow>
                (if ok
                 then p\<lparr> runners := (runners p)[k := Ready], settled := settled p @ [i] \<rparr>
                 else p\<lparr> runners := (runners p)[k := Rejected] \<rparr>)
            | _ \<Rightarrow> p)
      else p)"

definition runPool :: "'a list \<Rightarrow> nat \<Rightarrow> event list \<Rightarrow> 'a PoolState" where
  "runPool items n events = foldl (poolStep items) (startPool n) events"

definition mapWithConcurrency ::
  "'a list \<Rightarrow> jsnumber \<Rightarrow> event list \<Rightarrow> 'a PoolState outcome" where
  "mapWithConcurrency items workerCount events =
     (let safeConcurrency = Math_max (Num 1) workerCount
      in case Array_from_length safeConcurrency of
           Throws e \<Rightarrow> Throws e
         | Returns n \<Rightarrow> Returns (runPool items n events))"

text \<open>
  \<^verbatim>\<open>await Promise.all(runners)\<close>: rejected as soon as a runner is, fulfilled when all
  runners have left their loops.
\<close>

definition poolPromise :: "'a PoolState \<Rightarrow> promise" where
  "poolPromise p =
     (if Rejected \<in> set (runners p) then Failed
      else if list_all (\<lambda>r. r = Finished) (runners p) then Fulfilled
      else Pending)"

subsection \<open>The invariant of the pool and its measure of remaining work\<close>

fun awaited :: "runner \<Rightarrow> nat multiset" where
  "awaited (Awaiting i) = {#i#}"
| "awaited r = {#}"

fun awaitedAll :: "runner list \<Rightarrow> nat multiset" where
  "awaitedAll [] = {#}"
| "awaitedAll (r # rs) = awaited r + awaitedAll rs"

definition poolInv :: "'a list \<Rightarrow> nat \<Rightarrow> 'a PoolState \<Rightarrow> bool" where
  "poolInv items n p \<longleftrightarrow>
     length (runners p) = n
     \<and> nextIndex p \<le> length items
     \<and> calls p = map (\<lambda>i. (items ! i, i)) [0..<nextIndex p]
     \<and> (Finished \<in> set (runners p) \<longrightarrow> nextIndex p = length items)
     \<and> mset (settled p) + awaitedAll (runners p) \<subseteq># mset [0..<nextIndex p]
     \<and> (Rejected \<notin> set (runners p) \<longrightarrow>
          mset (settled p) + awaitedAll (runners p) = mset [0..<nextIndex p])"

fun weight :: "runner \<Rightarrow> nat" where
  "weight Ready = 2"
| "weight (Awaiting i) = 3"
| "weight Finished = 0"
| "weight Rejected = 0"

definition work :: "'a list \<Rightarrow> 'a PoolState \<Rightarrow> nat" where
  "work items p = 3 * (length items - nextIndex p) + sum_list (map weight (runners p))"

section \<open>Concrete inputs\<close>

definition emptySnapshot :: TickerSnapshot where
  "emptySnapshot =
     \<lparr> schemaVersion = 1, ticker = ''T'', annualFinancials = [], annualBalanceSheet = [],
       annualCashFlow = [], quarterlyShares = [], operatingMargins = None,
       dividendYield = None, sharesOutstanding = None, currentPrice = None,
       marketCap = None, yearlyDividendYields = [] \<rparr>"

definition financialRow :: "string \<Rightarrow> real \<Rightarrow> real \<Rightarrow> AnnualFinancialPoint" where
  "financialRow d revenue income =
     \<lparr> date = d, totalRevenue = Some revenue, netIncome = Some income,
       dilutedEPS = None, basicEPS = None, dilutedAverageShares = None \<rparr>"

definition scenarioSnapshot :: TickerSnapshot where
  "scenarioSnapshot =
     emptySnapshot
       \<lparr> annualFinancials :=
           [financialRow ''2020-12-31'' 100 10, financialRow ''2021-12-31'' 110 (- 5),
            financialRow ''2022-12-31'' 121 12, financialRow ''2023-12-31'' 133 15] \<rparr>"

definition cashFlowRow ::
  "string \<Rightarrow> real option \<Rightarrow> real option \<Rightarrow> real option \<Rightarrow> AnnualCashFlowPoint" where
  "cashFlowRow d ocf capex fcf =
     \<lparr> date = d, operatingCashFlow = ocf, capitalExpenditure = capex, freeCashFlow = fcf \<rparr>"

definition boundaryRow :: CompounderRow where
  "boundaryRow =
     \<lparr> revenueGrowth = \<lparr> positiveCount = 0, intervals = 0, cagrPercent = None \<rparr>,
       netIncomeGrowth = \<lparr> positiveCount = 0, intervals = 0, cagrPercent = None \<rparr>,
       epsGrowth = \<lparr> positiveCount = 0, intervals = 0, cagrPercent = None \<rparr>,
       roicPercent = Some 15, latestFcf = None, fcfGrowthPercent = None,
       sharesChange3yPercent = Some (- 2), operatingMarginPercent = Some 20,
       ticker = ''T'', currentYieldPercent = None, avgYield5yPercent = None,
       yieldVs5yAvgPercent = None, dcfIntrinsicValuePerShare = None,
       dcfUpsidePercent = None, carlsonQualityScore = 1 \<rparr>"

text \<open>
  The fetcher as \<^verbatim>\<open>runCompoundingMachine\<close> builds it: the default delay of 250 ms and
  four retries, over a cache with the default time to live.
\<close>

definition defaultFetcher :: "(string \<rightharpoonup> CacheRow) \<Rightarrow> StockDataFetcher" where
  "defaultFetcher table =
     \<lparr> cache = newCache table (ttlDays defaultOptions), requestDelayMs = 250, maxRetries = 4 \<rparr>"

text \<open>
  Every attempt fails: its second request rejects after 300 ms, when the delay of 250 ms
  is over.
\<close>

definition alwaysFails :: "nat \<Rightarrow> ApiCall" where
  "alwaysFails k =
     \<lparr> requests = [Fulfils, Rejects ''HTTP 429'' 300, Fulfils, Fulfils, Fulfils, Fulfils],
       normalised = emptySnapshot \<rparr>"




definition halfJitter :: "nat \<Rightarrow> real" where
  "halfJitter k = 1 / 2"


definition cachedTable :: "stored_payload \<Rightarrow> (string \<rightharpoonup> CacheRow)" where
  "cachedTable p = Map.empty(''AAPL'' \<mapsto> \<lparr> payload_json = p, fetched_at = Some 0 \<rparr>)"

definition duplicatedRows :: "AnnualCashFlowPoint list" where
  "duplicatedRows =
     [cashFlowRow ''2021-12-31'' None None (Some 1),
      cashFlowRow ''2020-12-31'' None None (Some 2),
      cashFlowRow ''2021-12-31'' None None (Some 3)]"

definition tenItems :: "string list" where
  "tenItems = [''A'', ''B'', ''C'', ''D'', ''E'', ''F'', ''G'', ''H'', ''I'', ''J'']"

definition threeWorkerSchedule :: "event list" where
  "threeWorkerSchedule =
     [Resume 0, Resume 1, Resume 2,
      Settle 1 True, Resume 1, Settle 0 True, Resume 0, Settle 2 True, Resume 2,
      Settle 0 True, Resume 0, Settle 1 True, Resume 1, Settle 2 True, Resume 2,
      Settle 2 True, Resume 2,
      Settle 0 True, Resume 0, Settle 1 True, Resume 1, Settle 2 True, Resume 2]"

section \<open>Verified properties\<close>

subsection \<open>growthStats\<close>

text \<open>
  The counting loop started at index \<open>i\<close> adds, to the count it is given, the number of
  rising consecutive pairs from position \<open>i - 1\<close> on.
\<close>

lemma growthLoop_count:
  "1 \<le> i \<Longrightarrow>
   growthLoop vs i c = c + length (filter (\<lambda>(a, b). a < b) (drop (i - 1) (zip vs (tl vs))))"
proof (induction vs i c rule: growthLoop.induct)
  case (1 vs i c)
  show ?case
  proof (cases "i < length vs")
    case True
    with "1.prems" have lt: "i - 1 < length (zip vs (tl vs))" by simp
    have hd: "zip vs (tl vs) ! (i - 1) = (vs ! (i - 1), vs ! i)"
      using True "1.prems" by (simp add: nth_tl)
    have split: "drop (i - Suc 0) (zip vs (tl vs))
                  = (vs ! (i - Suc 0), vs ! i) # drop i (zip vs (tl vs))"
      using Cons_nth_drop_Suc [OF lt] hd "1.prems" by simp
    have step: "growthLoop vs i c
                 = growthLoop vs (i + 1) (if vs ! i > vs ! (i - 1) then c + 1 else c)"
      using True by (subst growthLoop.simps) simp
    show ?thesis
      using "1.IH" [OF True] True "1.prems" by (simp add: step split)
  next
    case False
    then show ?thesis by (subst growthLoop.simps) simp
  qed
qed

text \<open>
  Claim C3. A series of fewer than two points gives zero intervals, a zero count and no
  CAGR. Otherwise \<open>intervals\<close> is the length minus one, \<open>positiveCount\<close> is the number
  of consecutive pairs whose later value strictly exceeds the earlier one, and
  \<open>cagrPercent\<close> is \<open>((last / first) ^ (1 / intervals) - 1) * 100\<close> exactly when the
  first and the last value are both strictly positive, and is undefined otherwise.
  Whenever the power is taken, that is whenever \<open>cagrPercent\<close> is defined, its base
  \<open>last / first\<close> is strictly positive.
\<close>

theorem growthStats_spec:
  "(length vs < 2 \<longrightarrow>
      growthStats vs = \<lparr> positiveCount = 0, intervals = 0, cagrPercent = None \<rparr>)
   \<and> (2 \<le> length vs \<longrightarrow>
        intervals (growthStats vs) = length vs - 1
      \<and> positiveCount (growthStats vs)
          = length (filter (\<lambda>(earlier, later). later > earlier) (zip vs (tl vs)))
      \<and> cagrPercent (growthStats vs)
          = (if 0 < hd vs \<and> 0 < last vs
             then Some (((last vs / hd vs) powr (1 / real (length vs - 1)) - 1) * 100)
             else None))
   \<and> (cagrPercent (growthStats vs) \<noteq> None \<longrightarrow> 0 < last vs / hd vs)"
proof (cases "length vs < 2")
  case True
  then show ?thesis by (simp add: growthStats_def)
next
  case False
  then have ne: "vs \<noteq> []" by auto
  have h: "vs ! 0 = hd vs" using ne by (simp add: hd_conv_nth)
  have l: "vs ! (length vs - Suc 0) = last vs" using ne by (simp add: last_conv_nth)
  show ?thesis
    using False
    by (simp add: growthStats_def Let_def growthLoop_count h l Math_pow_def)
qed

theorem growthStats_spec_witness:
  "growthStats [5] = \<lparr> positiveCount = 0, intervals = 0, cagrPercent = None \<rparr>
   \<and> intervals (growthStats [1, 2, 2, 4]) = 3
   \<and> positiveCount (growthStats [1, 2, 2, 4]) = 2
   \<and> cagrPercent (growthStats [2, 3, 4]) = Some ((2 powr (1 / 2) - 1) * 100)
   \<and> cagrPercent (growthStats [-2, 3, 4]) = None
   \<and> cagrPercent (growthStats [3, 6]) = Some 100"
  using growthStats_spec [of "[5]"] growthStats_spec [of "[1, 2, 2, 4]"]
    growthStats_spec [of "[2, 3, 4]"] growthStats_spec [of "[-2, 3, 4]"]
    growthStats_spec [of "[3, 6]"]
  by simp

subsection \<open>The unit heuristic of the margin and the yield\<close>

text \<open>
  Claim C10. The derived operating-margin percent and the current dividend-yield percent
  read the raw scalar of the snapshot with a unit heuristic: a raw value of at most 1 is
  taken as a fraction and multiplied by 100, a raw value above 1 is taken as a percentage
  and returned unchanged. A raw value of exactly 1 becomes 100.
\<close>

theorem unit_heuristic:
  "(operatingMargins s = Some v \<and> v \<le> 1 \<longrightarrow>
      computeOperatingMarginPercent s = Some (v * 100)
      \<and> operatingMarginPercent (buildRow s) = Some (v * 100))
   \<and> (operatingMargins s = Some v \<and> 1 < v \<longrightarrow>
      computeOperatingMarginPercent s = Some v
      \<and> operatingMarginPercent (buildRow s) = Some v)
   \<and> (operatingMargins s = Some 1 \<longrightarrow> operatingMarginPercent (buildRow s) = Some 100)
   \<and> (dividendYield s = Some d \<and> d \<le> 1 \<longrightarrow>
      YieldMetrics.currentYieldPercent (computeYieldMetrics s) = Some (d * 100)
      \<and> currentYieldPercent (buildRow s) = Some (d * 100))
   \<and> (dividendYield s = Some d \<and> 1 < d \<longrightarrow>
      YieldMetrics.currentYieldPercent (computeYieldMetrics s) = Some d
      \<and> currentYieldPercent (buildRow s) = Some d)
   \<and> (dividendYield s = Some 1 \<longrightarrow> currentYieldPercent (buildRow s) = Some 100)"
  by (simp add: computeOperatingMarginPercent_def computeYieldMetrics_def buildRow_def Let_def)

theorem unit_heuristic_witness:
  "operatingMarginPercent
     (buildRow (emptySnapshot\<lparr>operatingMargins := Some 0.25, dividendYield := Some 0.03\<rparr>))
     = Some 25
   \<and> currentYieldPercent
     (buildRow (emptySnapshot\<lparr>operatingMargins := Some 0.25, dividendYield := Some 0.03\<rparr>))
     = Some 3
   \<and> operatingMarginPercent
     (buildRow (emptySnapshot\<lparr>operatingMargins := Some 25, dividendYield := Some 3\<rparr>))
     = Some 25
   \<and> currentYieldPercent
     (buildRow (emptySnapshot\<lparr>operatingMargins := Some 25, dividendYield := Some 3\<rparr>))
     = Some 3
   \<and> operatingMarginPercent
     (buildRow (emptySnapshot\<lparr>operatingMargins := Some 1, dividendYield := Some 1\<rparr>))
     = Some 100
   \<and> currentYieldPercent
     (buildRow (emptySnapshot\<lparr>operatingMargins := Some 1, dividendYield := Some 1\<rparr>))
     = Some 100"
  using
    unit_heuristic [of "emptySnapshot\<lparr>operatingMargins := Some 0.25, dividendYield := Some 0.03\<rparr>"
      "0.25" "0.03"]
    unit_heuristic [of "emptySnapshot\<lparr>operatingMargins := Some 25, dividendYield := Some 3\<rparr>"
      "25" "3"]
    unit_heuristic [of "emptySnapshot\<lparr>operatingMargins := Some 1, dividendYield := Some 1\<rparr>"
      "1" "1"]
  by simp

subsection \<open>Boundaries of the filters\<close>

text \<open>
  Claim C2. For every row and all thresholds: the ROIC criterion fails when the ROIC equals
  the configured minimum, since it asks for a strictly greater value; so does the
  operating-margin criterion at its minimum; the buyback criterion passes when the
  three-year share change equals minus the absolute value of the configured buyback, since
  it asks for at most that value.
\<close>

theorem filter_boundaries:
  "(roicPercent row = Some (minRoic options) \<longrightarrow>
      \<not> roicPass (evaluateCarlsonFilters row options))
   \<and> (roicPercent row = Some r \<longrightarrow>
      roicPass (evaluateCarlsonFilters row options) = (r > minRoic options))
   \<and> (operatingMarginPercent row = Some (minOperatingMargin options) \<longrightarrow>
      \<not> marginPass (evaluateCarlsonFilters row options))
   \<and> (operatingMarginPercent row = Some m \<longrightarrow>
      marginPass (evaluateCarlsonFilters row options) = (m > minOperatingMargin options))
   \<and> (sharesChange3yPercent row = Some (- \<bar>minBuybackPercent options\<bar>) \<longrightarrow>
      buybackPass (evaluateCarlsonFilters row options))
   \<and> (sharesChange3yPercent row = Some c \<longrightarrow>
      buybackPass (evaluateCarlsonFilters row options)
        = (c \<le> - \<bar>minBuybackPercent options\<bar>))"
  by (simp add: evaluateCarlsonFilters_def Let_def)

theorem filter_boundaries_witness:
  "\<not> roicPass (evaluateCarlsonFilters boundaryRow defaultOptions)
   \<and> \<not> marginPass (evaluateCarlsonFilters boundaryRow defaultOptions)
   \<and> buybackPass (evaluateCarlsonFilters boundaryRow defaultOptions)
   \<and> buybackPass (evaluateCarlsonFilters boundaryRow (defaultOptions\<lparr>minBuybackPercent := - 2\<rparr>))"
  using filter_boundaries [of boundaryRow defaultOptions 15 20 "- 2"]
    filter_boundaries [of boundaryRow "defaultOptions\<lparr>minBuybackPercent := - 2\<rparr>" 15 20 "- 2"]
  by (simp add: boundaryRow_def defaultOptions_def)

subsection \<open>The free cash flow series\<close>

lemma fcfLoop_acc: "fcfLoop rows acc = acc @ fcfLoop rows []"
proof (induction rows arbitrary: acc)
  case Nil
  show ?case by simp
next
  case (Cons row rows)
  show ?case
  proof (cases "fcfOfRow row")
    case None
    then show ?thesis using Cons.IH [of acc] by simp
  next
    case (Some v)
    then show ?thesis using Cons.IH [of "acc @ [v]"] Cons.IH [of "[v]"] by simp
  qed
qed

lemma fcfLoop_append:
  "fcfLoop (pre @ row # post) [] =
     fcfLoop pre [] @ (case fcfOfRow row of None \<Rightarrow> [] | Some v \<Rightarrow> [v]) @ fcfLoop post []"
proof (induction pre)
  case Nil
  show ?case
  proof (cases "fcfOfRow row")
    case None
    then show ?thesis by simp
  next
    case (Some v)
    then show ?thesis using fcfLoop_acc [of post "[v]"] by simp
  qed
next
  case (Cons p pre)
  show ?case
  proof (cases "fcfOfRow p")
    case None
    then show ?thesis using Cons.IH by simp
  next
    case (Some v)
    then show ?thesis
      using Cons.IH fcfLoop_acc [of "pre @ row # post" "[v]"] fcfLoop_acc [of pre "[v]"]
      by simp
  qed
qed

text \<open>
  Claim C4. A row of the annual cash flow contributes one value to the series, between the
  values of the rows before it and of the rows after it. A row without an explicit
  \<open>freeCashFlow\<close> that has both \<open>operatingCashFlow\<close> and \<open>capitalExpenditure\<close>
  contributes their sum when the expenditure is negative and their difference when it is
  positive; a row with an explicit \<open>freeCashFlow\<close> contributes that value. The witness
  has the two conventions of the claim: 200 with -50 and 200 with +50 both give 150.
\<close>

theorem fcf_derivation:
  assumes "annualCashFlow s = pre @ row # post"
  shows "(freeCashFlow row = None \<and> operatingCashFlow row = Some ocf
            \<and> capitalExpenditure row = Some capex \<and> capex < 0 \<longrightarrow>
          computeAnnualFcfSeries s
            = computeAnnualFcfSeries (s\<lparr>annualCashFlow := pre\<rparr>) @ [ocf + capex]
                @ computeAnnualFcfSeries (s\<lparr>annualCashFlow := post\<rparr>))
       \<and> (freeCashFlow row = None \<and> operatingCashFlow row = Some ocf
            \<and> capitalExpenditure row = Some capex \<and> 0 < capex \<longrightarrow>
          computeAnnualFcfSeries s
            = computeAnnualFcfSeries (s\<lparr>annualCashFlow := pre\<rparr>) @ [ocf - capex]
                @ computeAnnualFcfSeries (s\<lparr>annualCashFlow := post\<rparr>))
       \<and> (freeCashFlow row = Some f \<longrightarrow>
          computeAnnualFcfSeries s
            = computeAnnualFcfSeries (s\<lparr>annualCashFlow := pre\<rparr>) @ [f]
                @ computeAnnualFcfSeries (s\<lparr>annualCashFlow := post\<rparr>))"
  using assms
  by (simp add: computeAnnualFcfSeries_def fcfLoop_append fcfOfRow_def Number_isFinite_def)

theorem fcf_derivation_witness:
  "computeAnnualFcfSeries
     (emptySnapshot\<lparr>annualCashFlow := [cashFlowRow ''2023-12-31'' (Some 200) (Some (- 50)) None]\<rparr>) = [150]
   \<and> computeAnnualFcfSeries
     (emptySnapshot\<lparr>annualCashFlow := [cashFlowRow ''2023-12-31'' (Some 200) (Some 50) None]\<rparr>) = [150]
   \<and> computeAnnualFcfSeries
     (emptySnapshot\<lparr>annualCashFlow := [cashFlowRow ''2023-12-31'' (Some 200) (Some 50) (Some 42)]\<rparr>) = [42]"
proof -
  have e: "computeAnnualFcfSeries (s\<lparr>annualCashFlow := []\<rparr>) = []" for s
    by (simp add: computeAnnualFcfSeries_def)
  show ?thesis
    using
      fcf_derivation [of "emptySnapshot\<lparr>annualCashFlow := [cashFlowRow ''2023-12-31'' (Some 200) (Some (- 50)) None]\<rparr>"
        "[]" "cashFlowRow ''2023-12-31'' (Some 200) (Some (- 50)) None" "[]" 200 "- 50" 0]
      fcf_derivation [of "emptySnapshot\<lparr>annualCashFlow := [cashFlowRow ''2023-12-31'' (Some 200) (Some 50) None]\<rparr>"
        "[]" "cashFlowRow ''2023-12-31'' (Some 200) (Some 50) None" "[]" 200 50 0]
      fcf_derivation [of "emptySnapshot\<lparr>annualCashFlow := [cashFlowRow ''2023-12-31'' (Some 200) (Some 50) (Some 42)]\<rparr>"
        "[]" "cashFlowRow ''2023-12-31'' (Some 200) (Some 50) (Some 42)" "[]" 200 50 42]
    by (simp add: e cashFlowRow_def)
qed

subsection \<open>The end-to-end scenario\<close>

lemma growthLoop_unfold:
  "growthLoop vs i c =
     (if i < length vs
      then growthLoop vs (Suc i) (if vs ! i > vs ! (i - 1) then Suc c else c)
      else c)"
  by (subst growthLoop.simps) simp

lemma requiredFromIntervals_3: "requiredFromIntervals 3 = 2"
  by (simp add: requiredFromIntervals_def Math_round_def)

text \<open>
  Claim C1, as the code has it. For a snapshot whose annual financials give the revenue
  series 100, 110, 121, 133 and the net income series 10, -5, 12, 15, \<open>buildRow\<close> yields
  3 rising intervals out of 3 for the revenue and 2 out of 3 for the net income. The
  required count for 3 intervals is \<open>max 1 (round (3 * 0.8)) = 2\<close>, so the net-income
  criterion passes with 2 of 3, whatever the options are.
\<close>

theorem scenario_growth_and_filter:
  assumes "map totalRevenue (annualFinancials s) = [Some 100, Some 110, Some 121, Some 133]"
    and "map netIncome (annualFinancials s) = [Some 10, Some (- 5), Some 12, Some 15]"
  shows "positiveCount (revenueGrowth (buildRow s)) = 3
       \<and> intervals (revenueGrowth (buildRow s)) = 3
       \<and> positiveCount (netIncomeGrowth (buildRow s)) = 2
       \<and> intervals (netIncomeGrowth (buildRow s)) = 3
       \<and> revenueRequired (evaluateCarlsonFilters (buildRow s) options) = 2
       \<and> netIncomeRequired (evaluateCarlsonFilters (buildRow s) options) = 2
       \<and> revenuePass (evaluateCarlsonFilters (buildRow s) options)
       \<and> netIncomePass (evaluateCarlsonFilters (buildRow s) options)"
proof -
  have rev: "sliceLast 6 (positiveDefined (map totalRevenue (annualFinancials s)))
               = [100, 110, 121, 133]"
    by (simp add: assms sliceLast_def positiveDefined_def Number_isFinite_def)
  have inc: "sliceLast 6 (finiteDefined (map netIncome (annualFinancials s)))
               = [10, - 5, 12, 15]"
    by (simp add: assms sliceLast_def finiteDefined_def Number_isFinite_def)
  have r: "revenueGrowth (buildRow s) = growthStats [100, 110, 121, 133]"
    by (simp add: buildRow_def Let_def rev)
  have n: "netIncomeGrowth (buildRow s) = growthStats [10, - 5, 12, 15]"
    by (simp add: buildRow_def Let_def inc)
  have gr: "positiveCount (growthStats [100, 110, 121, 133]) = 3
           \<and> intervals (growthStats [100, 110, 121, 133]) = 3"
    by (simp add: growthStats_def Let_def growthLoop_unfold)
  have gn: "positiveCount (growthStats [10, - 5, 12, 15]) = 2
           \<and> intervals (growthStats [10, - 5, 12, 15]) = 3"
    by (simp add: growthStats_def Let_def growthLoop_unfold)
  show ?thesis
    using gr gn
    by (simp add: r n evaluateCarlsonFilters_def Let_def requiredFromIntervals_3)
qed

theorem scenario_growth_and_filter_witness:
  "positiveCount (revenueGrowth (buildRow scenarioSnapshot)) = 3
   \<and> intervals (revenueGrowth (buildRow scenarioSnapshot)) = 3
   \<and> positiveCount (netIncomeGrowth (buildRow scenarioSnapshot)) = 2
   \<and> intervals (netIncomeGrowth (buildRow scenarioSnapshot)) = 3
   \<and> netIncomeRequired (evaluateCarlsonFilters (buildRow scenarioSnapshot) defaultOptions) = 2
   \<and> netIncomePass (evaluateCarlsonFilters (buildRow scenarioSnapshot) defaultOptions)"
proof -
  have a: "map totalRevenue (annualFinancials scenarioSnapshot)
             = [Some 100, Some 110, Some 121, Some 133]"
    by (simp add: scenarioSnapshot_def financialRow_def)
  have b: "map netIncome (annualFinancials scenarioSnapshot)
             = [Some 10, Some (- 5), Some 12, Some 15]"
    by (simp add: scenarioSnapshot_def financialRow_def)
  show ?thesis
    using scenario_growth_and_filter [OF a b, of defaultOptions] by simp
qed

text \<open>
  The claim as stated says that the net-income criterion fails on this snapshot, with a
  required count of 3. It passes, and the required count is not 3.
\<close>

theorem scenario_net_income_counterexample:
  "netIncomePass (evaluateCarlsonFilters (buildRow scenarioSnapshot) defaultOptions)
   \<and> netIncomeRequired (evaluateCarlsonFilters (buildRow scenarioSnapshot) defaultOptions) \<noteq> 3"
proof -
  have rev: "sliceLast 6 (positiveDefined (map totalRevenue (annualFinancials scenarioSnapshot)))
               = [100, 110, 121, 133]"
    by (simp add: scenarioSnapshot_def financialRow_def sliceLast_def positiveDefined_def
        Number_isFinite_def)
  have inc: "sliceLast 6 (finiteDefined (map netIncome (annualFinancials scenarioSnapshot)))
               = [10, - 5, 12, 15]"
    by (simp add: scenarioSnapshot_def financialRow_def sliceLast_def finiteDefined_def
        Number_isFinite_def)
  have n: "netIncomeGrowth (buildRow scenarioSnapshot) = growthStats [10, - 5, 12, 15]"
    by (simp add: buildRow_def Let_def inc)
  have gn: "positiveCount (growthStats [10, - 5, 12, 15]) = 2
           \<and> intervals (growthStats [10, - 5, 12, 15]) = 3"
    by (simp add: growthStats_def Let_def growthLoop_unfold)
  show ?thesis
    using gn by (simp add: n evaluateCarlsonFilters_def Let_def requiredFromIntervals_3)
qed

subsection \<open>The growth rate of the discounted cash flow\<close>

lemma lastElem_last: "xs \<noteq> [] \<Longrightarrow> lastElem xs = Some (last xs)"
  by (simp add: lastElem_def last_conv_nth)

lemma dcfLoop_unfold:
  "dcfLoop g d yr pv p =
     (if yr \<le> 10
      then dcfLoop g d (Suc yr) (pv + p * (1 + g) / Math_pow (1 + d) (real yr)) (p * (1 + g))
      else (pv, p))"
  by (subst dcfLoop.simps) (simp add: Let_def)

lemma dcfLoop_closed:
  "yr \<le> 11 \<Longrightarrow>
   dcfLoop g d yr pv p =
     (pv + (\<Sum>k = yr..10. p * (1 + g) ^ (k + 1 - yr) / Math_pow (1 + d) (real k)),
      p * (1 + g) ^ (11 - yr))"
proof (induction g d yr pv p rule: dcfLoop.induct)
  case (1 g d yr pv p)
  show ?case
  proof (cases "yr \<le> 10")
    case True
    have ih: "dcfLoop g d (yr + 1) (pv + p * (1 + g) / Math_pow (1 + d) (real yr)) (p * (1 + g))
        = (pv + p * (1 + g) / Math_pow (1 + d) (real yr)
             + (\<Sum>k = yr + 1..10. p * (1 + g) * (1 + g) ^ (k + 1 - (yr + 1))
                                    / Math_pow (1 + d) (real k)),
           p * (1 + g) * (1 + g) ^ (11 - (yr + 1)))"
      using "1.IH" [OF True refl] True by simp
    have s1: "(\<Sum>k = yr..10. p * (1 + g) ^ (k + 1 - yr) / Math_pow (1 + d) (real k))
        = p * (1 + g) / Math_pow (1 + d) (real yr)
          + (\<Sum>k = yr + 1..10. p * (1 + g) ^ (k + 1 - yr) / Math_pow (1 + d) (real k))"
      using True by (simp add: sum.atLeast_Suc_atMost)
    have s2: "(\<Sum>k = yr + 1..10. p * (1 + g) * (1 + g) ^ (k + 1 - (yr + 1))
                                    / Math_pow (1 + d) (real k))
        = (\<Sum>k = yr + 1..10. p * (1 + g) ^ (k + 1 - yr) / Math_pow (1 + d) (real k))"
    proof (rule sum.cong)
      fix k assume "k \<in> {yr + 1..10}"
      then have "k + 1 - yr = Suc (k + 1 - (yr + 1))" by auto
      then show "p * (1 + g) * (1 + g) ^ (k + 1 - (yr + 1)) / Math_pow (1 + d) (real k)
          = p * (1 + g) ^ (k + 1 - yr) / Math_pow (1 + d) (real k)"
        by (simp add: mult.assoc)
    qed simp
    have e: "p * (1 + g) * (1 + g) ^ (11 - (yr + 1)) = p * (1 + g) ^ (11 - yr)"
    proof -
      have "11 - yr = Suc (11 - (yr + 1))" using True by auto
      then show ?thesis by (simp add: mult.assoc)
    qed
    have step: "dcfLoop g d yr pv p
        = dcfLoop g d (yr + 1) (pv + p * (1 + g) / Math_pow (1 + d) (real yr)) (p * (1 + g))"
      using True by (subst dcfLoop_unfold) simp
    show ?thesis
      unfolding step ih s1 s2 e by simp
  next
    case False
    with "1.prems" have "yr = 11" by simp
    then show ?thesis by (subst dcfLoop_unfold) simp
  qed
qed

lemma dcfGrowth_bounds: "- 0.05 \<le> dcfGrowth fcf \<and> dcfGrowth fcf \<le> 0.20"
  by (simp add: dcfGrowth_def clamp_def)

lemma dcfRawGrowth_cagr:
  assumes "2 \<le> length (filter (\<lambda>v. 0 < v) (sliceLast 3 fcf))"
  shows "cagrPercent (growthStats (filter (\<lambda>v. 0 < v) (sliceLast 3 fcf)))
           = Some (dcfRawGrowth fcf * 100)"
proof -
  let ?t = "filter (\<lambda>v. 0 < v) (sliceLast 3 fcf)"
  have ne: "?t \<noteq> []" using assms by auto
  have "?t ! 0 \<in> set ?t" using ne by (simp del: set_filter)
  then have p0: "0 < ?t ! 0" by simp
  have "?t ! (length ?t - 1) \<in> set ?t" using ne by (simp del: set_filter)
  then have pl: "0 < ?t ! (length ?t - 1)" by simp
  show ?thesis
    using assms p0 pl by (simp add: growthStats_def dcfRawGrowth_def Let_def)
qed

lemma computeDcf_value:
  assumes "2 \<le> length fcf" and "0 < last fcf" and "dcfShares s = Some n" and "0 < n"
  shows "intrinsicValuePerShare (computeDcf s fcf)
     = Some (((\<Sum>k = 1..10. last fcf * (1 + dcfGrowth fcf) ^ k / 1.1 powr real k)
              + last fcf * (1 + dcfGrowth fcf) ^ 10 * (1 + 0.025) / (0.10 - 0.025)
                  / 1.1 powr 10) / n)"
proof -
  define g where "g = dcfGrowth fcf"
  define pv where "pv = (\<Sum>k = 1..10. last fcf * (1 + g) ^ k / 1.1 powr real k)"
  define pf where "pf = last fcf * (1 + g) ^ 10"
  have ne: "fcf \<noteq> []" using assms(1) by auto
  have gpos: "0 < 1 + g" using dcfGrowth_bounds [of fcf] by (simp add: g_def)
  have loop: "dcfLoop g (1 / 10) (Suc 0) 0 (last fcf) = (pv, pf)"
    using dcfLoop_closed [of 1 g "0.10" 0 "last fcf"]
    by (simp add: Math_pow_def pv_def pf_def)
  have tpos: "0 < last fcf * (1 + g) ^ k / 1.1 powr real k" for k
    using assms(2) gpos by simp
  have pvpos: "0 < pv" unfolding pv_def by (rule sum_pos) (simp_all add: tpos)
  have pfpos: "0 < pf" unfolding pf_def using assms(2) gpos by simp
  have pos: "0 < (pv + pf * 41 / (3 * (11 / 10) ^ 10)) / n"
    using pvpos pfpos assms(4) by (simp add: add_pos_pos)
  have "intrinsicValuePerShare (computeDcf s fcf)
          = Some ((pv + pf * (1 + 0.025) / (0.10 - 0.025) / 1.1 powr 10) / n)"
    using assms ne pos
    by (simp add: computeDcf_def lastElem_last g_def [symmetric] loop Let_def Math_pow_def
        Number_isFinite_def not_le [symmetric])
  then show ?thesis by (simp add: pv_def pf_def g_def)
qed

lemma dcfRawGrowth_last_three: "dcfRawGrowth (pre @ [a, b, c]) = dcfRawGrowth [a, b, c]"
  by (simp add: dcfRawGrowth_def sliceLast_def)

text \<open>
  Claim C5, as the code has it. The growth rate that \<open>computeDcf\<close> projects with lies
  between -5% and 20%. It is the clamped raw rate. The raw rate looks at the last three
  points of the series only, whatever precedes them: it is the CAGR of the positive
  values among these three points when at least two of them are positive (the same value,
  as a fraction, that \<open>growthStats\<close> gives for them in percent), and 4% otherwise. A raw
  rate of at least 20% is used as 20%, one of at most -5% as -5%. With at least two points,
  a positive latest value and a known positive share count, the intrinsic value per share
  is the ten projected years at that rate, discounted at 10%, plus the discounted terminal
  value, divided by the share count. When a precondition fails there is no intrinsic value.
\<close>

theorem dcf_growth_clamped:
  "- 0.05 \<le> dcfGrowth fcf \<and> dcfGrowth fcf \<le> 0.20
   \<and> dcfGrowth fcf = max (- 0.05) (min 0.20 (dcfRawGrowth fcf))
   \<and> dcfRawGrowth (pre @ [a, b, c]) = dcfRawGrowth [a, b, c]
   \<and> (2 \<le> length (filter (\<lambda>v. 0 < v) (drop (length fcf - 3) fcf)) \<longrightarrow>
        dcfRawGrowth fcf
          = (last (filter (\<lambda>v. 0 < v) (drop (length fcf - 3) fcf))
               / hd (filter (\<lambda>v. 0 < v) (drop (length fcf - 3) fcf)))
              powr (1 / real (length (filter (\<lambda>v. 0 < v) (drop (length fcf - 3) fcf)) - 1)) - 1
      \<and> cagrPercent (growthStats (filter (\<lambda>v. 0 < v) (drop (length fcf - 3) fcf)))
          = Some (dcfRawGrowth fcf * 100))
   \<and> (length (filter (\<lambda>v. 0 < v) (drop (length fcf - 3) fcf)) < 2 \<longrightarrow>
        dcfRawGrowth fcf = 0.04)
   \<and> (0.20 \<le> dcfRawGrowth fcf \<longrightarrow> dcfGrowth fcf = 0.20)
   \<and> (dcfRawGrowth fcf \<le> - 0.05 \<longrightarrow> dcfGrowth fcf = - 0.05)
   \<and> (2 \<le> length fcf \<and> 0 < last fcf \<and> dcfShares s = Some n \<and> 0 < n \<longrightarrow>
        intrinsicValuePerShare (computeDcf s fcf)
          = Some (((\<Sum>k = 1..10. last fcf * (1 + dcfGrowth fcf) ^ k / 1.1 powr real k)
                   + last fcf * (1 + dcfGrowth fcf) ^ 10 * (1 + 0.025) / (0.10 - 0.025) / 1.1 powr 10) / n))
   \<and> (length fcf < 2 \<or> last fcf \<le> 0 \<or> dcfShares s = None
        \<or> (dcfShares s = Some n \<and> n \<le> 0) \<longrightarrow>
        intrinsicValuePerShare (computeDcf s fcf) = None
      \<and> upsidePercent (computeDcf s fcf) = None)"
proof -
  let ?t = "filter (\<lambda>v. 0 < v) (drop (length fcf - 3) fcf)"
  have win: "filter (\<lambda>v. 0 < v) (sliceLast 3 fcf) = ?t" by (simp add: sliceLast_def)
  have raw: "2 \<le> length ?t \<longrightarrow>
      dcfRawGrowth fcf = (last ?t / hd ?t) powr (1 / real (length ?t - 1)) - 1"
  proof
    assume a: "2 \<le> length ?t"
    then have ne: "?t \<noteq> []" by auto
    have h: "?t ! 0 = hd ?t" using ne by (simp add: hd_conv_nth)
    have l: "?t ! (length ?t - 1) = last ?t" using ne by (simp add: last_conv_nth)
    show "dcfRawGrowth fcf = (last ?t / hd ?t) powr (1 / real (length ?t - 1)) - 1"
      using a unfolding dcfRawGrowth_def Let_def Math_pow_def win h l by simp
  qed
  have cagr: "2 \<le> length ?t \<longrightarrow>
      cagrPercent (growthStats ?t) = Some (dcfRawGrowth fcf * 100)"
    using dcfRawGrowth_cagr [of fcf] unfolding win by blast
  have dflt: "length ?t < 2 \<longrightarrow> dcfRawGrowth fcf = 0.04"
    unfolding dcfRawGrowth_def Let_def win by simp
  have fail: "length fcf < 2 \<or> last fcf \<le> 0 \<or> dcfShares s = None
        \<or> (dcfShares s = Some n \<and> n \<le> 0) \<longrightarrow>
        intrinsicValuePerShare (computeDcf s fcf) = None
      \<and> upsidePercent (computeDcf s fcf) = None"
  proof (cases "length fcf < 2")
    case True
    then show ?thesis by (simp add: computeDcf_def)
  next
    case False
    then have "fcf \<noteq> []" by auto
    then show ?thesis
      using False by (auto simp: computeDcf_def lastElem_last split: option.splits)
  qed
  have c1: "- 0.05 \<le> dcfGrowth fcf" and c2: "dcfGrowth fcf \<le> 0.20"
    using dcfGrowth_bounds [of fcf] by simp_all
  have c3: "dcfGrowth fcf = max (- 0.05) (min 0.20 (dcfRawGrowth fcf))"
    by (simp add: dcfGrowth_def clamp_def)
  have c4: "dcfRawGrowth (pre @ [a, b, c]) = dcfRawGrowth [a, b, c]"
    by (rule dcfRawGrowth_last_three)
  have c5: "2 \<le> length ?t \<longrightarrow>
        dcfRawGrowth fcf = (last ?t / hd ?t) powr (1 / real (length ?t - 1)) - 1
      \<and> cagrPercent (growthStats ?t) = Some (dcfRawGrowth fcf * 100)"
    using raw cagr by blast
  have c6: "0.20 \<le> dcfRawGrowth fcf \<longrightarrow> dcfGrowth fcf = 0.20"
    by (simp add: dcfGrowth_def clamp_def)
  have c7: "dcfRawGrowth fcf \<le> - 0.05 \<longrightarrow> dcfGrowth fcf = - 0.05"
    by (simp add: dcfGrowth_def clamp_def)
  have c8: "2 \<le> length fcf \<and> 0 < last fcf \<and> dcfShares s = Some n \<and> 0 < n \<longrightarrow>
        intrinsicValuePerShare (computeDcf s fcf)
          = Some (((\<Sum>k = 1..10. last fcf * (1 + dcfGrowth fcf) ^ k / 1.1 powr real k)
                   + last fcf * (1 + dcfGrowth fcf) ^ 10 * (1 + 0.025) / (0.10 - 0.025) / 1.1 powr 10) / n)"
    using computeDcf_value [of fcf s n] by blast
  show ?thesis using c1 c2 c3 c4 c5 dflt c6 c7 c8 fail by (intro conjI)
qed

theorem dcf_growth_clamped_witness:
  "dcfRawGrowth [100, 150] = 0.5 \<and> dcfGrowth [100, 150] = 0.20
   \<and> dcfRawGrowth [100, 70] = - 0.3 \<and> dcfGrowth [100, 70] = - 0.05
   \<and> dcfRawGrowth [1, 100, - 5, 150] = 0.5 \<and> dcfGrowth [1, 100, - 5, 150] = 0.20
   \<and> dcfRawGrowth [100, 200, - 5, - 5, 300] = 0.04
   \<and> dcfGrowth [100, 200, - 5, - 5, 300] = 0.04
   \<and> intrinsicValuePerShare (computeDcf emptySnapshot [100, 150]) = None
   \<and> intrinsicValuePerShare
        (computeDcf (emptySnapshot\<lparr>sharesOutstanding := Some 0\<rparr>) [100, 150]) = None
   \<and> intrinsicValuePerShare
        (computeDcf (emptySnapshot\<lparr>sharesOutstanding := Some 10\<rparr>) [100, - 150]) = None
   \<and> intrinsicValuePerShare
        (computeDcf (emptySnapshot\<lparr>sharesOutstanding := Some 10\<rparr>) [100]) = None
   \<and> intrinsicValuePerShare
        (computeDcf (emptySnapshot\<lparr>sharesOutstanding := Some 10\<rparr>) [100, 150]) \<noteq> None"
proof -
  have s0: "dcfShares emptySnapshot = None"
    by (simp add: dcfShares_def emptySnapshot_def nullish_def lastElem_def)
  have s1: "dcfShares (emptySnapshot\<lparr>sharesOutstanding := Some v\<rparr>) = Some v" for v
    by (simp add: dcfShares_def nullish_def)
  show ?thesis
    using dcf_growth_clamped [of "[100, 150]" "[]" 1 1 1 emptySnapshot 0]
      dcf_growth_clamped [of "[100, 70]" "[]" 1 1 1 "emptySnapshot\<lparr>sharesOutstanding := Some 0\<rparr>" 0]
      dcf_growth_clamped [of "[1, 100, - 5, 150]" "[1]" 100 "- 5" 150
         "emptySnapshot\<lparr>sharesOutstanding := Some 10\<rparr>" 10]
      dcf_growth_clamped [of "[100, 200, - 5, - 5, 300]" "[100, 200]" "- 5" "- 5" 300
         "emptySnapshot\<lparr>sharesOutstanding := Some 10\<rparr>" 10]
      dcf_growth_clamped [of "[100, - 150]" "[]" 1 1 1 "emptySnapshot\<lparr>sharesOutstanding := Some 10\<rparr>" 10]
      dcf_growth_clamped [of "[100]" "[]" 1 1 1 "emptySnapshot\<lparr>sharesOutstanding := Some 10\<rparr>" 10]
      dcf_growth_clamped [of "[100, 150]" "[]" 1 1 1 "emptySnapshot\<lparr>sharesOutstanding := Some 0\<rparr>" 0]
      dcf_growth_clamped [of "[100, 150]" "[]" 1 1 1 "emptySnapshot\<lparr>sharesOutstanding := Some 10\<rparr>" 10]
    by (simp add: s0 s1)
qed

text \<open>
  The claim as stated takes the trailing three of the positive points. The series
  \<open>[100, 200, -5, -5, 300]\<close> meets the preconditions and has three positive points,
  100, 200 and 300, whose compound rate \<open>sqrt 3 - 1\<close> is above 20%; only one of its
  last three points is positive, and \<open>computeDcf\<close> projects with the default 4%.
\<close>

theorem dcf_trailing_window_counterexample:
  "2 \<le> length [100, 200, - 5, - 5, 300 :: real]
   \<and> 0 < last [100, 200, - 5, - 5, 300 :: real]
   \<and> dcfShares (emptySnapshot\<lparr>sharesOutstanding := Some 10\<rparr>) = Some 10
   \<and> intrinsicValuePerShare
        (computeDcf (emptySnapshot\<lparr>sharesOutstanding := Some 10\<rparr>) [100, 200, - 5, - 5, 300])
       \<noteq> None
   \<and> length (filter (\<lambda>v. 0 < v) [100, 200, - 5, - 5, 300 :: real]) = 3
   \<and> dcfGrowth [100, 200, - 5, - 5, 300] = 0.04
   \<and> claimedDcfGrowth [100, 200, - 5, - 5, 300] = 0.20
   \<and> dcfGrowth [100, 200, - 5, - 5, 300] \<noteq> claimedDcfGrowth [100, 200, - 5, - 5, 300]"
proof -
  have code: "dcfGrowth [100, 200, - 5, - 5, 300] = 0.04"
    by (simp add: dcfGrowth_def dcfRawGrowth_def sliceLast_def clamp_def)
  have "(12 / 10 :: real) \<le> sqrt 3" by (rule real_le_rsqrt) (simp add: power2_eq_square)
  then have big: "(0.20 :: real) \<le> 3 powr (1 / 2) - 1" by (simp add: powr_half_sqrt)
  have claimed: "claimedDcfGrowth [100, 200, - 5, - 5, 300] = 0.20"
    using big by (simp add: claimedDcfGrowth_def sliceLast_def clamp_def)
  have sh: "dcfShares (emptySnapshot\<lparr>sharesOutstanding := Some 10\<rparr>) = Some 10"
    by (simp add: dcfShares_def nullish_def)
  have pre: "2 \<le> length [100, 200, - 5, - 5, 300 :: real]
      \<and> 0 < last [100, 200, - 5, - 5, 300 :: real]
      \<and> dcfShares (emptySnapshot\<lparr>sharesOutstanding := Some 10\<rparr>) = Some 10
      \<and> 0 < (10 :: real)"
    using sh by simp
  have v: "intrinsicValuePerShare
        (computeDcf (emptySnapshot\<lparr>sharesOutstanding := Some 10\<rparr>) [100, 200, - 5, - 5, 300])
       \<noteq> None"
    using computeDcf_value [of "[100, 200, - 5, - 5, 300]"
        "emptySnapshot\<lparr>sharesOutstanding := Some 10\<rparr>" 10] pre by simp
  have l2: "2 \<le> length [100, 200, - 5, - 5, 300 :: real]" by simp
  have l3: "0 < last [100, 200, - 5, - 5, 300 :: real]" by simp
  have l4: "length (filter (\<lambda>v. 0 < v) [100, 200, - 5, - 5, 300 :: real]) = 3" by simp
  have ne: "dcfGrowth [100, 200, - 5, - 5, 300] \<noteq> claimedDcfGrowth [100, 200, - 5, - 5, 300]"
    unfolding code claimed by simp
  show ?thesis using l2 l3 sh v l4 code claimed ne by (intro conjI)
qed

subsection \<open>De-duplication by date\<close>

lemma map_of_Map_set: "map_of (Map_set m k v) = (map_of m)(k \<mapsto> v)"
  by (induction m k v rule: Map_set.induct) (auto simp: fun_eq_iff)

lemma keys_Map_set:
  "map fst (Map_set m k v) = (if k \<in> fst ` set m then map fst m else map fst m @ [k])"
  by (induction m k v rule: Map_set.induct) auto

lemma Map_set_fresh: "k \<notin> fst ` set m \<Longrightarrow> Map_set m k v = m @ [(k, v)]"
  by (induction m k v rule: Map_set.induct) auto

lemma distinct_Map_set: "distinct (map fst m) \<Longrightarrow> distinct (map fst (Map_set m k v))"
  by (simp add: keys_Map_set)

lemma set_Map_set: "set (Map_set m k v) \<subseteq> insert (k, v) (set m)"
  by (induction m k v rule: Map_set.induct) auto

lemma distinct_dedupeLoop:
  "distinct (map fst m) \<Longrightarrow> distinct (map fst (dedupeLoop m rows))"
  by (induction rows arbitrary: m) (simp_all add: distinct_Map_set)

lemma keyed_dedupeLoop:
  "\<forall>(k, v) \<in> set m. date v = k \<Longrightarrow> \<forall>(k, v) \<in> set (dedupeLoop m rows). date v = k"
proof (induction rows arbitrary: m)
  case Nil
  then show ?case by simp
next
  case (Cons row rows)
  have "\<forall>(k, v) \<in> set (Map_set m (date row) row). date v = k"
    using Cons.prems set_Map_set [of m "date row" row] by auto
  then show ?case using Cons.IH by simp
qed

lemma map_of_dedupeLoop:
  "map_of (dedupeLoop m rows) d =
     (if \<exists>r \<in> set rows. date r = d
      then Some (last (filter (\<lambda>r. date r = d) rows))
      else map_of m d)"
proof (induction rows arbitrary: m)
  case Nil
  show ?case by simp
next
  case (Cons row rows)
  show ?case
  proof (cases "\<exists>r \<in> set rows. date r = d")
    case True
    then have "filter (\<lambda>r. date r = d) rows \<noteq> []" by (auto simp: filter_empty_conv)
    then show ?thesis using True Cons.IH [of "Map_set m (date row) row"] by simp
  next
    case False
    then have "filter (\<lambda>r. date r = d) rows = []" by (auto simp: filter_empty_conv)
    then show ?thesis
      using False Cons.IH [of "Map_set m (date row) row"] by (simp add: map_of_Map_set)
  qed
qed

lemma dedupeLoop_distinct_input:
  "distinct (map date xs) \<Longrightarrow> fst ` set m \<inter> date ` set xs = {} \<Longrightarrow>
   dedupeLoop m xs = m @ map (\<lambda>r. (date r, r)) xs"
proof (induction xs arbitrary: m)
  case Nil
  show ?case by simp
next
  case (Cons x xs)
  have fresh: "date x \<notin> fst ` set m" using Cons.prems(2) by auto
  have disj: "fst ` set (m @ [(date x, x)]) \<inter> date ` set xs = {}"
    using Cons.prems by auto
  show ?case
    using Cons.IH [of "m @ [(date x, x)]"] Cons.prems(1) disj
    by (simp add: Map_set_fresh [OF fresh])
qed

lemma values_dedupeLoop:
  "r \<in> set (map snd (dedupeLoop [] rows))
     \<longleftrightarrow> r \<in> set rows \<and> r = last (filter (\<lambda>x. date x = date r) rows)"
proof -
  let ?es = "dedupeLoop [] rows"
  have d: "distinct (map fst ?es)" by (rule distinct_dedupeLoop) simp
  have k: "\<forall>(k, v) \<in> set ?es. date v = k" by (rule keyed_dedupeLoop) simp
  have "r \<in> set (map snd ?es) \<longleftrightarrow> (date r, r) \<in> set ?es"
    using k by force
  also have "\<dots> \<longleftrightarrow> map_of ?es (date r) = Some r"
    using d by simp
  also have "\<dots> \<longleftrightarrow> (\<exists>x \<in> set rows. date x = date r)
                      \<and> r = last (filter (\<lambda>x. date x = date r) rows)"
    by (auto simp: map_of_dedupeLoop)
  also have "\<dots> \<longleftrightarrow> r \<in> set rows \<and> r = last (filter (\<lambda>x. date x = date r) rows)"
  proof
    assume a: "(\<exists>x \<in> set rows. date x = date r)
                 \<and> r = last (filter (\<lambda>x. date x = date r) rows)"
    then have "filter (\<lambda>x. date x = date r) rows \<noteq> []" by (auto simp: filter_empty_conv)
    then have "last (filter (\<lambda>x. date x = date r) rows)
                 \<in> set (filter (\<lambda>x. date x = date r) rows)" by (rule last_in_set)
    then show "r \<in> set rows \<and> r = last (filter (\<lambda>x. date x = date r) rows)"
      using a by auto
  next
    assume "r \<in> set rows \<and> r = last (filter (\<lambda>x. date x = date r) rows)"
    then show "(\<exists>x \<in> set rows. date x = date r)
                 \<and> r = last (filter (\<lambda>x. date x = date r) rows)" by auto
  qed
  finally show ?thesis .
qed

lemma dates_dedupeLoop: "map date (map snd (dedupeLoop [] rows)) = map fst (dedupeLoop [] rows)"
proof -
  have "\<forall>(k, v) \<in> set (dedupeLoop [] rows). date v = k" by (rule keyed_dedupeLoop) simp
  then show ?thesis by (auto simp: map_eq_conv)
qed

lemma distinct_dates_dedupeByDate: "distinct (map date (dedupeByDate rows))"
proof -
  have "distinct (map date (map snd (dedupeLoop [] rows)))"
    unfolding dates_dedupeLoop by (rule distinct_dedupeLoop) simp
  then have "distinct (map date (sort_key date (map snd (dedupeLoop [] rows))))"
    by (metis distinct_map distinct_sort set_sort)
  then show ?thesis by (simp add: dedupeByDate_def sortByDateAsc_def)
qed

text \<open>
  Claim C8. \<open>dedupeByDate\<close> is idempotent; its output is sorted ascending by date; no
  date occurs twice in it; it has exactly the dates of the input; and a row is in the
  output exactly when it is the last row of the input with its date.
\<close>

theorem dedupeByDate_spec:
  "dedupeByDate (dedupeByDate rows) = dedupeByDate rows
   \<and> sorted (map date (dedupeByDate rows))
   \<and> distinct (map date (dedupeByDate rows))
   \<and> date ` set (dedupeByDate rows) = date ` set rows
   \<and> (\<forall>r. r \<in> set (dedupeByDate rows)
          \<longleftrightarrow> r \<in> set rows \<and> r = last (filter (\<lambda>x. date x = date r) rows))"
proof -
  let ?out = "dedupeByDate rows"
  have srt: "sorted (map date ?out)" by (simp add: dedupeByDate_def sortByDateAsc_def)
  have dst: "distinct (map date ?out)" by (rule distinct_dates_dedupeByDate)
  have mem: "r \<in> set ?out
          \<longleftrightarrow> r \<in> set rows \<and> r = last (filter (\<lambda>x. date x = date r) rows)" for r
    using values_dedupeLoop [of r rows] by (simp add: dedupeByDate_def sortByDateAsc_def)
  have "dedupeLoop [] ?out = [] @ map (\<lambda>r. (date r, r)) ?out"
    by (rule dedupeLoop_distinct_input) (simp_all add: dst)
  then have "map snd (dedupeLoop [] ?out) = ?out" by (simp add: comp_def)
  then have idem: "dedupeByDate ?out = ?out"
    using srt by (simp add: dedupeByDate_def [of ?out] sortByDateAsc_def sort_key_id_if_sorted)
  have dates: "date ` set ?out = date ` set rows"
  proof
    show "date ` set ?out \<subseteq> date ` set rows" using mem by auto
  next
    show "date ` set rows \<subseteq> date ` set ?out"
    proof
      fix d assume "d \<in> date ` set rows"
      then have ne: "filter (\<lambda>x. date x = d) rows \<noteq> []" by (auto simp: filter_empty_conv)
      let ?r = "last (filter (\<lambda>x. date x = d) rows)"
      have "?r \<in> set (filter (\<lambda>x. date x = d) rows)" using ne by (rule last_in_set)
      then have r: "?r \<in> set rows" "date ?r = d" by auto
      then have "?r \<in> set ?out" using mem [of ?r] by simp
      then show "d \<in> date ` set ?out" using r(2) by force
    qed
  qed
  show ?thesis using idem srt dst dates mem by blast
qed

theorem dedupeByDate_spec_witness:
  "dedupeByDate duplicatedRows
     = [cashFlowRow ''2020-12-31'' None None (Some 2),
        cashFlowRow ''2021-12-31'' None None (Some 3)]
   \<and> dedupeByDate (dedupeByDate duplicatedRows) = dedupeByDate duplicatedRows
   \<and> sorted (map date (dedupeByDate duplicatedRows))
   \<and> distinct (map date (dedupeByDate duplicatedRows))
   \<and> cashFlowRow ''2021-12-31'' None None (Some 3) \<in> set (dedupeByDate duplicatedRows)"
proof -
  have v: "dedupeByDate duplicatedRows
     = [cashFlowRow ''2020-12-31'' None None (Some 2),
        cashFlowRow ''2021-12-31'' None None (Some 3)]"
    by (simp add: dedupeByDate_def sortByDateAsc_def duplicatedRows_def cashFlowRow_def)
  have l: "cashFlowRow ''2021-12-31'' None None (Some 3) \<in> set duplicatedRows
        \<and> cashFlowRow ''2021-12-31'' None None (Some 3)
            = last (filter (\<lambda>x. date x = date (cashFlowRow ''2021-12-31'' None None (Some 3)))
                      duplicatedRows)"
    by (simp add: duplicatedRows_def cashFlowRow_def)
  note th = dedupeByDate_spec [of duplicatedRows]
  have i: "dedupeByDate (dedupeByDate duplicatedRows) = dedupeByDate duplicatedRows"
    using th by (rule conjunct1)
  have s: "sorted (map date (dedupeByDate duplicatedRows))"
    using th by blast
  have d: "distinct (map date (dedupeByDate duplicatedRows))"
    using th by blast
  have m: "cashFlowRow ''2021-12-31'' None None (Some 3) \<in> set (dedupeByDate duplicatedRows)"
    using th l by blast
  show ?thesis using v i s d m by (intro conjI)
qed

subsection \<open>The retrying fetcher\<close>

lemma Math_pow_two: "Math_pow 2 (real k) = 2 ^ k"
  by (simp add: Math_pow_def powr_realpow)









lemma fetchLoop_run:
  assumes "a \<le> k" and "k \<le> maxRetries fetcher"
    and "\<forall>j. a \<le> j \<and> j < k \<longrightarrow> (\<exists>m e. fetchFromApi fetcher (api j) = ApiError m e)"
    and "k = maxRetries fetcher \<or> (\<exists>d. fetchFromApi fetcher (api k) = ApiData d)"
  shows "fetchLoop fetcher t api rnd a tr =
     (case fetchFromApi fetcher (api k) of ApiData d \<Rightarrow> Some d | ApiError m e \<Rightarrow> None,
      tr\<lparr> apiCalls := apiCalls tr + (k + 1 - a),
          sleeps := sleeps tr @ map (backoffDelay fetcher rnd) [a..<k],
          errorLog := errorLog tr
             @ (case fetchFromApi fetcher (api k) of ApiData d \<Rightarrow> [] | ApiError m e \<Rightarrow> [failureLine t m]),
          unhandled := unhandled tr @ concat (map (\<lambda>j. earlyOf (fetchFromApi fetcher (api j))) [a..<k + 1]) \<rparr>)"
  using assms
proof (induction fetcher t api rnd a tr rule: fetchLoop.induct)
  case (1 fetcher t api rnd attempt tr)
  have le: "attempt \<le> maxRetries fetcher" using "1.prems" by simp
  show ?case
  proof (cases "attempt = k")
    case True
    show ?thesis
    proof (cases "fetchFromApi fetcher (api k)")
      case (ApiData d)
      then show ?thesis using True le by (subst fetchLoop.simps) simp
    next
      case (ApiError m e)
      then have "k = maxRetries fetcher" using "1.prems"(4) by auto
      then show ?thesis using True ApiError by (subst fetchLoop.simps) simp
    qed
  next
    case False
    then have lt: "attempt < k" using "1.prems"(1) by simp
    then obtain m e where m: "fetchFromApi fetcher (api attempt) = ApiError m e" using "1.prems"(3) by auto
    have notlast: "\<not> attempt \<ge> maxRetries fetcher" using lt "1.prems"(2) by simp
    define b where "b = Math_round (requestDelayMs fetcher * Math_pow 2 (real attempt)
                                     + rnd attempt * 250)"
    define tr1 where "tr1 = tr\<lparr>apiCalls := apiCalls tr + 1, sleeps := sleeps tr @ [b],
                               unhandled := unhandled tr @ e\<rparr>"
    define rest where "rest = concat (map (\<lambda>j. earlyOf (fetchFromApi fetcher (api j))) [attempt + 1..<k + 1])"
    have step: "fetchLoop fetcher t api rnd attempt tr
                  = fetchLoop fetcher t api rnd (attempt + 1) tr1"
      using le m notlast by (subst fetchLoop.simps) (simp add: Let_def tr1_def b_def)
    have ih: "fetchLoop fetcher t api rnd (attempt + 1) tr1
              = (case fetchFromApi fetcher (api k) of ApiData d \<Rightarrow> Some d | ApiError m e \<Rightarrow> None,
                 tr1\<lparr> apiCalls := apiCalls tr1 + (k + 1 - (attempt + 1)),
                      sleeps := sleeps tr1 @ map (backoffDelay fetcher rnd) [attempt + 1..<k],
                      errorLog := errorLog tr1
                        @ (case fetchFromApi fetcher (api k) of ApiData d \<Rightarrow> []
                           | ApiError m e \<Rightarrow> [failureLine t m]),
                      unhandled := unhandled tr1 @ rest \<rparr>)"
      using "1.IH" [OF le m refl notlast refl] lt "1.prems"
      by (simp add: tr1_def b_def rest_def)
    have up: "[attempt..<k] = attempt # [attempt + 1..<k]"
      using lt by (simp add: upt_conv_Cons)
    have up1: "[attempt..<k + 1] = attempt # [attempt + 1..<k + 1]"
      using lt by (simp add: upt_conv_Cons)
    have early: "concat (map (\<lambda>j. earlyOf (fetchFromApi fetcher (api j))) [attempt..<k + 1]) = e @ rest"
      unfolding up1 rest_def using m by simp
    have b: "b = backoffDelay fetcher rnd attempt"
      by (simp add: b_def backoffDelay_def Math_pow_two)
    have "tr1\<lparr> apiCalls := apiCalls tr1 + (k + 1 - (attempt + 1)),
               sleeps := sleeps tr1 @ map (backoffDelay fetcher rnd) [attempt + 1..<k],
               errorLog := errorLog tr1
                 @ (case fetchFromApi fetcher (api k) of ApiData d \<Rightarrow> [] | ApiError m e \<Rightarrow> [failureLine t m]),
               unhandled := unhandled tr1 @ rest \<rparr>
          = tr\<lparr> apiCalls := apiCalls tr + (k + 1 - attempt),
               sleeps := sleeps tr @ map (backoffDelay fetcher rnd) [attempt..<k],
               errorLog := errorLog tr
                 @ (case fetchFromApi fetcher (api k) of ApiData d \<Rightarrow> [] | ApiError m e \<Rightarrow> [failureLine t m]),
               unhandled := unhandled tr
                 @ concat (map (\<lambda>j. earlyOf (fetchFromApi fetcher (api j))) [attempt..<k + 1]) \<rparr>"
      unfolding early using lt by (simp add: tr1_def up b)
    then show ?thesis unfolding step ih by simp
  qed
qed

lemma stop_index_exists:
  "\<exists>k \<le> M. (\<forall>j. (0::nat) \<le> j \<and> j < k \<longrightarrow> (\<exists>m e. res j = ApiError m e))
            \<and> (k = M \<or> (\<exists>d. res k = ApiData d))"
proof (cases "\<exists>j \<le> M. \<exists>d. res j = ApiData d")
  case True
  define k where "k = (LEAST j. \<exists>d. res j = ApiData d)"
  from True obtain j0 where j0: "j0 \<le> M" "\<exists>d. res j0 = ApiData d" by auto
  have data: "\<exists>d. res k = ApiData d"
    unfolding k_def using j0(2) by (rule LeastI)
  have "k \<le> j0" unfolding k_def using j0(2) by (rule Least_le)
  then have le: "k \<le> M" using j0(1) by simp
  have "\<exists>m e. res j = ApiError m e" if "j < k" for j
  proof -
    have "\<not> (\<exists>d. res j = ApiData d)" using that not_less_Least unfolding k_def by blast
    then show ?thesis by (cases "res j") auto
  qed
  then show ?thesis using le data by blast
next
  case False
  then have "\<exists>m e. res j = ApiError m e" if "j < M" for j
    using that by (cases "res j") (auto simp: less_imp_le)
  then show ?thesis by blast
qed


lemma fetchWithRetry_run:
  assumes "k \<le> maxRetries fetcher"
    and "\<forall>j. 0 \<le> j \<and> j < k \<longrightarrow> (\<exists>m e. fetchFromApi fetcher (api j) = ApiError m e)"
    and "k = maxRetries fetcher \<or> (\<exists>d. fetchFromApi fetcher (api k) = ApiData d)"
  shows "fetchWithRetry fetcher t api rnd =
     (case fetchFromApi fetcher (api k) of ApiData d \<Rightarrow> Some d | ApiError m e \<Rightarrow> None,
      \<lparr> apiCalls = k + 1, sleeps = map (backoffDelay fetcher rnd) [0..<k],
        errorLog = (case fetchFromApi fetcher (api k) of ApiData d \<Rightarrow> [] | ApiError m e \<Rightarrow> [failureLine t m]),
        unhandled = concat (map (\<lambda>j. earlyOf (fetchFromApi fetcher (api j))) [0..<k + 1]) \<rparr>)"
proof -
  have z: "(0::nat) \<le> k" by simp
  show ?thesis
    unfolding fetchWithRetry_def
    by (subst fetchLoop_run [OF z assms]) simp
qed



lemma apiCalls_fetchWithRetry: "1 \<le> apiCalls (snd (fetchWithRetry fetcher t api rnd))"
proof -
  from stop_index_exists [of "maxRetries fetcher" "\<lambda>j. fetchFromApi fetcher (api j)"]
  obtain k where k: "k \<le> maxRetries fetcher"
      "\<forall>j. 0 \<le> j \<and> j < k \<longrightarrow> (\<exists>m e. fetchFromApi fetcher (api j) = ApiError m e)"
      "k = maxRetries fetcher \<or> (\<exists>d. fetchFromApi fetcher (api k) = ApiData d)"
    by (elim exE conjE)
  show ?thesis by (simp add: fetchWithRetry_run [OF k])
qed





subsection \<open>The cache lookup\<close>

lemma get_absent_iff:
  "CompounderDataCache_get c now t = Returns None
     \<longleftrightarrow> db c = None
         \<or> (\<exists>table. db c = Some table
               \<and> (table t = None \<or> (\<exists>row. table t = Some row \<and> stale c now row)))"
  by (auto simp: CompounderDataCache_get_def split: option.splits stored_payload.splits)

lemma get_present_iff:
  "CompounderDataCache_get c now t = Returns (Some s)
     \<longleftrightarrow> (\<exists>table row. db c = Some table \<and> table t = Some row \<and> \<not> stale c now row
                      \<and> payload_json row = Payload s)"
  by (auto simp: CompounderDataCache_get_def split: option.splits stored_payload.splits)

lemma get_throws_iff:
  "CompounderDataCache_get c now t = Throws e
     \<longleftrightarrow> e = ''SyntaxError''
         \<and> (\<exists>table row. db c = Some table \<and> table t = Some row \<and> \<not> stale c now row
                      \<and> payload_json row = Unparsable)"
  by (auto simp: CompounderDataCache_get_def split: option.splits stored_payload.splits)

lemma fetchTickerSnapshot_cases:
  "fetchTickerSnapshot fetcher now later t api rnd =
     (case CompounderDataCache_get (cache fetcher) now t of
        Throws e \<Rightarrow> (Throws e, fetcher, \<lparr> apiCalls = 0, sleeps = [], errorLog = [], unhandled = [] \<rparr>)
      | Returns None \<Rightarrow>
          (case fetchWithRetry fetcher t api rnd of
             (Some snapshot, tr) \<Rightarrow>
               (Returns (Some snapshot),
                fetcher\<lparr>cache := CompounderDataCache_set (cache fetcher) later t snapshot\<rparr>, tr)
           | (None, tr) \<Rightarrow> (Returns None, fetcher, tr))
      | Returns (Some s) \<Rightarrow>
          (if schemaVersion s = 1
           then (Returns (Some s), fetcher, \<lparr> apiCalls = 0, sleeps = [], errorLog = [], unhandled = [] \<rparr>)
           else
             (case fetchWithRetry fetcher t api rnd of
                (Some snapshot, tr) \<Rightarrow>
                  (Returns (Some snapshot),
                   fetcher\<lparr>cache := CompounderDataCache_set (cache fetcher) later t snapshot\<rparr>,
                   tr)
              | (None, tr) \<Rightarrow> (Returns None, fetcher, tr))))"
  by (simp add: fetchTickerSnapshot_def split: outcome.splits option.splits)

lemma fetch_path_calls:
  "1 \<le> apiCalls (snd (snd
      (case fetchWithRetry fetcher t api rnd of
         (Some snapshot, tr) \<Rightarrow>
           (Returns (Some snapshot),
            fetcher\<lparr>cache := CompounderDataCache_set (cache fetcher) later t snapshot\<rparr>, tr)
       | (None, tr) \<Rightarrow> (Returns None, fetcher, tr))))"
  using apiCalls_fetchWithRetry [of fetcher t api rnd]
  by (cases "fetchWithRetry fetcher t api rnd") (auto split: option.splits)

lemma fetch_path_no_throw:
  "fst (case fetchWithRetry fetcher t api rnd of
         (Some snapshot, tr) \<Rightarrow>
           (Returns (Some snapshot),
            fetcher\<lparr>cache := CompounderDataCache_set (cache fetcher) later t snapshot\<rparr>, tr)
       | (None, tr) \<Rightarrow> (Returns None, fetcher, tr)) \<noteq> Throws e"
  by (cases "fetchWithRetry fetcher t api rnd") (auto split: option.splits)

text \<open>
  Claim C6, as the code has it. \<open>get\<close> returns absent exactly when the database handle
  is closed, or no record exists for the key, or the record is stale, that is its age
  \<open>now - fetchedAt\<close> exceeds the time to live. It returns the stored snapshot exactly when
  a record exists, is not stale and its payload parses; it throws exactly when a record
  exists, is not stale and its payload does not parse. \<open>fetchTickerSnapshot\<close> serves the
  snapshot from the cache, without a call of the data source, exactly when \<open>get\<close>
  returns it and its schema version is 1; it turns to the data source exactly when
  \<open>get\<close> returns absent or returns a snapshot of another schema version; and it throws
  exactly what \<open>get\<close> throws.
\<close>

theorem cache_lookup_spec:
  "(CompounderDataCache_get c now t = Returns None
      \<longleftrightarrow> db c = None
          \<or> (\<exists>table. db c = Some table
                \<and> (table t = None \<or> (\<exists>row. table t = Some row \<and> stale c now row))))
   \<and> (stale c now row \<longleftrightarrow> (\<exists>ts. fetched_at row = Some ts \<and> now - ts > ttlMs c))
   \<and> (CompounderDataCache_get c now t = Returns (Some s)
      \<longleftrightarrow> (\<exists>table row. db c = Some table \<and> table t = Some row \<and> \<not> stale c now row
                      \<and> payload_json row = Payload s))
   \<and> (CompounderDataCache_get c now t = Throws e
      \<longleftrightarrow> e = ''SyntaxError''
          \<and> (\<exists>table row. db c = Some table \<and> table t = Some row \<and> \<not> stale c now row
                       \<and> payload_json row = Unparsable))
   \<and> (cache fetcher = c \<longrightarrow>
        (fetchTickerSnapshot fetcher now later t api rnd
           = (Returns (Some s), fetcher, \<lparr> apiCalls = 0, sleeps = [], errorLog = [], unhandled = [] \<rparr>)
         \<longleftrightarrow> CompounderDataCache_get c now t = Returns (Some s) \<and> schemaVersion s = 1)
      \<and> (1 \<le> apiCalls (snd (snd (fetchTickerSnapshot fetcher now later t api rnd)))
         \<longleftrightarrow> CompounderDataCache_get c now t = Returns None
             \<or> (\<exists>s'. CompounderDataCache_get c now t = Returns (Some s')
                      \<and> schemaVersion s' \<noteq> 1))
      \<and> (fst (fetchTickerSnapshot fetcher now later t api rnd) = Throws e
         \<longleftrightarrow> CompounderDataCache_get c now t = Throws e))"
proof -
  have st: "stale c now row \<longleftrightarrow> (\<exists>ts. fetched_at row = Some ts \<and> now - ts > ttlMs c)"
    by (simp add: stale_def split: option.splits)
  have ft: "cache fetcher = c \<longrightarrow>
        (fetchTickerSnapshot fetcher now later t api rnd
           = (Returns (Some s), fetcher, \<lparr> apiCalls = 0, sleeps = [], errorLog = [], unhandled = [] \<rparr>)
         \<longleftrightarrow> CompounderDataCache_get c now t = Returns (Some s) \<and> schemaVersion s = 1)
      \<and> (1 \<le> apiCalls (snd (snd (fetchTickerSnapshot fetcher now later t api rnd)))
         \<longleftrightarrow> CompounderDataCache_get c now t = Returns None
             \<or> (\<exists>s'. CompounderDataCache_get c now t = Returns (Some s')
                      \<and> schemaVersion s' \<noteq> 1))
      \<and> (fst (fetchTickerSnapshot fetcher now later t api rnd) = Throws e
         \<longleftrightarrow> CompounderDataCache_get c now t = Throws e)"
  proof
    assume c: "cache fetcher = c"
    note calls = fetch_path_calls [where fetcher = fetcher and t = t and api = api and rnd = rnd
        and later = later]
    note nothrow = fetch_path_no_throw [where fetcher = fetcher and t = t and api = api
        and rnd = rnd and later = later and e = e]
    show "(fetchTickerSnapshot fetcher now later t api rnd
           = (Returns (Some s), fetcher, \<lparr> apiCalls = 0, sleeps = [], errorLog = [], unhandled = [] \<rparr>)
         \<longleftrightarrow> CompounderDataCache_get c now t = Returns (Some s) \<and> schemaVersion s = 1)
      \<and> (1 \<le> apiCalls (snd (snd (fetchTickerSnapshot fetcher now later t api rnd)))
         \<longleftrightarrow> CompounderDataCache_get c now t = Returns None
             \<or> (\<exists>s'. CompounderDataCache_get c now t = Returns (Some s')
                      \<and> schemaVersion s' \<noteq> 1))
      \<and> (fst (fetchTickerSnapshot fetcher now later t api rnd) = Throws e
         \<longleftrightarrow> CompounderDataCache_get c now t = Throws e)"
    proof (cases "CompounderDataCache_get c now t")
      case (Throws e')
      then show ?thesis by (simp add: fetchTickerSnapshot_cases c)
    next
      case (Returns cached)
      show ?thesis
      proof (cases cached)
        case None
        have "fetchTickerSnapshot fetcher now later t api rnd
                \<noteq> (Returns (Some s), fetcher, \<lparr> apiCalls = 0, sleeps = [], errorLog = [], unhandled = [] \<rparr>)"
          using calls Returns None by (auto simp: fetchTickerSnapshot_cases c)
        then show ?thesis
          using calls nothrow Returns None by (simp add: fetchTickerSnapshot_cases c)
      next
        case (Some s')
        show ?thesis
        proof (cases "schemaVersion s' = 1")
          case True
          then show ?thesis using Returns Some by (auto simp: fetchTickerSnapshot_cases c)
        next
          case False
          have "fetchTickerSnapshot fetcher now later t api rnd
                \<noteq> (Returns (Some s), fetcher, \<lparr> apiCalls = 0, sleeps = [], errorLog = [], unhandled = [] \<rparr>)"
            using calls Returns Some False by (auto simp: fetchTickerSnapshot_cases c)
          then show ?thesis
            using calls nothrow Returns Some False
            by (auto simp: fetchTickerSnapshot_cases c)
        qed
      qed
    qed
  qed
  show ?thesis
    using get_absent_iff [of c now t] st get_present_iff [of c now t s]
      get_throws_iff [of c now t e] ft
    by (intro conjI)
qed

theorem cache_lookup_spec_witness:
  "fetchTickerSnapshot (defaultFetcher (cachedTable (Payload emptySnapshot))) 1000 2000 ''AAPL''
       alwaysFails halfJitter
     = (Returns (Some emptySnapshot), defaultFetcher (cachedTable (Payload emptySnapshot)),
        \<lparr> apiCalls = 0, sleeps = [], errorLog = [], unhandled = [] \<rparr>)
   \<and> CompounderDataCache_get (cache (defaultFetcher (cachedTable (Payload emptySnapshot))))
        1000 ''MSFT'' = Returns None
   \<and> CompounderDataCache_get (cache (defaultFetcher (cachedTable (Payload emptySnapshot))))
        700000000 ''AAPL'' = Returns None
   \<and> 1 \<le> apiCalls (snd (snd (fetchTickerSnapshot
          (defaultFetcher (cachedTable (Payload emptySnapshot))) 700000000 700000001 ''AAPL''
          alwaysFails halfJitter)))
   \<and> 1 \<le> apiCalls (snd (snd (fetchTickerSnapshot
          (defaultFetcher (cachedTable (Payload (emptySnapshot\<lparr>schemaVersion := 0\<rparr>))))
          1000 2000 ''AAPL'' alwaysFails halfJitter)))"
proof -
  have ttl: "ttlMs (cache (defaultFetcher tb)) = 604800000" for tb
    by (simp add: defaultFetcher_def newCache_def defaultOptions_def)
  have dbv: "db (cache (defaultFetcher tb)) = Some tb" for tb
    by (simp add: defaultFetcher_def newCache_def)
  have v: "schemaVersion emptySnapshot = 1" by (simp add: emptySnapshot_def)
  have fresh: "\<not> stale (cache (defaultFetcher tb)) 1000 \<lparr> payload_json = p, fetched_at = Some 0 \<rparr>"
    for tb p
    by (simp add: stale_def ttl)
  have old: "stale (cache (defaultFetcher tb)) 700000000 \<lparr> payload_json = p, fetched_at = Some 0 \<rparr>"
    for tb p
    by (simp add: stale_def ttl)
  note a = cache_lookup_spec [where c = "cache (defaultFetcher (cachedTable (Payload emptySnapshot)))"
      and fetcher = "defaultFetcher (cachedTable (Payload emptySnapshot))"
      and now = 1000 and later = 2000 and t = "''AAPL''" and s = emptySnapshot
      and api = alwaysFails and rnd = halfJitter]
  note b = cache_lookup_spec [where c = "cache (defaultFetcher (cachedTable (Payload emptySnapshot)))"
      and fetcher = "defaultFetcher (cachedTable (Payload emptySnapshot))"
      and now = 1000 and later = 2000 and t = "''MSFT''" and s = emptySnapshot
      and api = alwaysFails and rnd = halfJitter]
  note c = cache_lookup_spec [where c = "cache (defaultFetcher (cachedTable (Payload emptySnapshot)))"
      and fetcher = "defaultFetcher (cachedTable (Payload emptySnapshot))"
      and now = 700000000 and later = 700000001 and t = "''AAPL''" and s = emptySnapshot
      and api = alwaysFails and rnd = halfJitter]
  note d = cache_lookup_spec [where
      c = "cache (defaultFetcher (cachedTable (Payload (emptySnapshot\<lparr>schemaVersion := 0\<rparr>))))"
      and fetcher = "defaultFetcher (cachedTable (Payload (emptySnapshot\<lparr>schemaVersion := 0\<rparr>)))"
      and now = 1000 and later = 2000 and t = "''AAPL''"
      and s = "emptySnapshot\<lparr>schemaVersion := 0\<rparr>"
      and api = alwaysFails and rnd = halfJitter]
  have g1: "fetchTickerSnapshot (defaultFetcher (cachedTable (Payload emptySnapshot))) 1000 2000
       ''AAPL'' alwaysFails halfJitter
     = (Returns (Some emptySnapshot), defaultFetcher (cachedTable (Payload emptySnapshot)),
        \<lparr> apiCalls = 0, sleeps = [], errorLog = [], unhandled = [] \<rparr>)"
    using a by (simp add: dbv v fresh cachedTable_def)
  have g2: "CompounderDataCache_get (cache (defaultFetcher (cachedTable (Payload emptySnapshot))))
        1000 ''MSFT'' = Returns None"
    using b by (simp add: dbv cachedTable_def)
  have g3: "CompounderDataCache_get (cache (defaultFetcher (cachedTable (Payload emptySnapshot))))
        700000000 ''AAPL'' = Returns None"
    using c by (simp add: dbv old cachedTable_def)
  have g4: "1 \<le> apiCalls (snd (snd (fetchTickerSnapshot
          (defaultFetcher (cachedTable (Payload emptySnapshot))) 700000000 700000001 ''AAPL''
          alwaysFails halfJitter)))"
    using c by (simp add: dbv old cachedTable_def)
  have g5: "1 \<le> apiCalls (snd (snd (fetchTickerSnapshot
          (defaultFetcher (cachedTable (Payload (emptySnapshot\<lparr>schemaVersion := 0\<rparr>))))
          1000 2000 ''AAPL'' alwaysFails halfJitter)))"
    using d by (simp add: dbv fresh cachedTable_def)
  show ?thesis using g1 g2 g3 g4 g5 by (intro conjI)
qed

text \<open>
  The claim as stated has every error of a single lookup degrade to a cache miss. A
  record whose payload does not parse makes \<open>get\<close> throw, and the lookup of
  \<open>fetchTickerSnapshot\<close> with it.
\<close>

theorem cache_error_counterexample:
  "CompounderDataCache_get (cache (defaultFetcher (cachedTable Unparsable))) 1000 ''AAPL''
     = Throws ''SyntaxError''
   \<and> CompounderDataCache_get (cache (defaultFetcher (cachedTable Unparsable))) 1000 ''AAPL''
     \<noteq> Returns None
   \<and> fst (fetchTickerSnapshot (defaultFetcher (cachedTable Unparsable)) 1000 2000 ''AAPL''
        alwaysFails halfJitter) = Throws ''SyntaxError''"
  by (simp add: fetchTickerSnapshot_def CompounderDataCache_get_def stale_def defaultFetcher_def
      newCache_def defaultOptions_def cachedTable_def)

subsection \<open>The worker pool\<close>

lemma awaitedAll_update:
  "k < length rs \<Longrightarrow> awaitedAll (rs[k := r]) + awaited (rs ! k) = awaitedAll rs + awaited r"
proof (induction rs arbitrary: k)
  case Nil
  then show ?case by simp
next
  case (Cons a rs)
  show ?case
  proof (cases k)
    case 0
    then show ?thesis by simp
  next
    case (Suc j)
    then have "j < length rs" using Cons.prems by simp
    from Cons.IH [OF this] show ?thesis using Suc by (simp add: add.assoc)
  qed
qed

lemma awaitedAll_replicate_Ready: "awaitedAll (replicate n Ready) = {#}"
  by (induction n) simp_all

lemma poolInv_start: "poolInv items n (startPool n)"
  by (simp add: poolInv_def startPool_def awaitedAll_replicate_Ready)

lemma member_update_other:
  assumes "x \<in> set rs" and "rs ! k \<noteq> x"
  shows "x \<in> set (rs[k := y])"
proof -
  from assms(1) obtain j where j: "j < length rs" "rs ! j = x"
    by (auto simp: in_set_conv_nth)
  then have "j \<noteq> k" using assms(2) by auto
  then have "rs[k := y] ! j = x" using j by simp
  then show ?thesis using j(1) by (metis length_list_update nth_mem)
qed

lemma member_update_cases:
  assumes "x \<in> set (rs[k := y])"
  shows "x = y \<or> x \<in> set rs"
  using assms set_update_subset_insert [of rs k y] by auto

lemma poolInv_claim:
  assumes inv: "poolInv items workerCount p"
    and k: "k < length (runners p)" "runners p ! k = Ready"
    and more: "nextIndex p < length items"
  shows "poolInv items workerCount
           (p\<lparr> nextIndex := nextIndex p + 1,
               runners := (runners p)[k := Awaiting (nextIndex p)],
               calls := calls p @ [(items ! nextIndex p, nextIndex p)] \<rparr>)"
proof -
  let ?rs = "(runners p)[k := Awaiting (nextIndex p)]"
  have aw: "awaitedAll ?rs = awaitedAll (runners p) + {#nextIndex p#}"
    using awaitedAll_update [OF k(1), of "Awaiting (nextIndex p)"] k(2) by simp
  have nofin: "Finished \<notin> set ?rs"
  proof
    assume "Finished \<in> set ?rs"
    then have "Finished \<in> set (runners p)" using member_update_cases by fastforce
    then show False using inv more by (simp add: poolInv_def)
  qed
  have rej: "Rejected \<notin> set (runners p)" if "Rejected \<notin> set ?rs"
    using that member_update_other [of Rejected "runners p" k] k(2) by auto
  have sub: "mset (settled p) + awaitedAll ?rs \<subseteq># mset [0..<nextIndex p + 1]"
    using inv by (simp add: poolInv_def aw)
  have eq: "mset (settled p) + awaitedAll ?rs = mset [0..<nextIndex p + 1]"
    if "Rejected \<notin> set ?rs"
    using inv rej [OF that] by (simp add: poolInv_def aw)
  show ?thesis
    using inv more nofin sub eq by (simp add: poolInv_def)
qed

lemma poolInv_finish:
  assumes inv: "poolInv items workerCount p"
    and k: "k < length (runners p)" "runners p ! k = Ready"
    and full: "\<not> nextIndex p < length items"
  shows "poolInv items workerCount (p\<lparr> runners := (runners p)[k := Finished] \<rparr>)"
proof -
  let ?rs = "(runners p)[k := Finished]"
  have aw: "awaitedAll ?rs = awaitedAll (runners p)"
    using awaitedAll_update [OF k(1), of Finished] k(2) by simp
  have rej: "Rejected \<notin> set (runners p)" if "Rejected \<notin> set ?rs"
    using that member_update_other [of Rejected "runners p" k] k(2) by auto
  have n: "nextIndex p = length items" using inv full by (simp add: poolInv_def)
  show ?thesis
    using inv n rej by (auto simp: poolInv_def aw)
qed

lemma poolInv_fulfil:
  assumes inv: "poolInv items workerCount p"
    and k: "k < length (runners p)" "runners p ! k = Awaiting i"
  shows "poolInv items workerCount
           (p\<lparr> runners := (runners p)[k := Ready], settled := settled p @ [i] \<rparr>)"
proof -
  let ?rs = "(runners p)[k := Ready]"
  define p' where "p' = p\<lparr> runners := ?rs, settled := settled p @ [i] \<rparr>"
  have sel: "runners p' = ?rs" "nextIndex p' = nextIndex p" "calls p' = calls p"
    "settled p' = settled p @ [i]"
    by (simp_all add: p'_def)
  have aw: "awaitedAll ?rs + {#i#} = awaitedAll (runners p)"
    using awaitedAll_update [OF k(1), of Ready] k(2) by simp
  have total: "mset (settled p @ [i]) + awaitedAll ?rs = mset (settled p) + awaitedAll (runners p)"
    using aw by (simp add: add.assoc [symmetric] add.commute)
  have rej: "Rejected \<notin> set (runners p)" if "Rejected \<notin> set ?rs"
    using that member_update_other [of Rejected "runners p" k] k(2) by auto
  have fin: "Finished \<in> set (runners p)" if "Finished \<in> set ?rs"
    using that member_update_cases by fastforce
  have len: "length ?rs = length (runners p)" by simp
  have "poolInv items workerCount p'"
    unfolding poolInv_def sel total len
    using inv [unfolded poolInv_def] rej fin by blast
  then show ?thesis by (simp add: p'_def)
qed

lemma poolInv_reject:
  assumes inv: "poolInv items workerCount p"
    and k: "k < length (runners p)" "runners p ! k = Awaiting i"
  shows "poolInv items workerCount (p\<lparr> runners := (runners p)[k := Rejected] \<rparr>)"
proof -
  let ?rs = "(runners p)[k := Rejected]"
  define p' where "p' = p\<lparr> runners := ?rs \<rparr>"
  have sel: "runners p' = ?rs" "nextIndex p' = nextIndex p" "calls p' = calls p"
    "settled p' = settled p"
    by (simp_all add: p'_def)
  have aw: "awaitedAll ?rs + {#i#} = awaitedAll (runners p)"
    using awaitedAll_update [OF k(1), of Rejected] k(2) by simp
  have "mset (settled p) + awaitedAll ?rs \<subseteq># mset (settled p) + awaitedAll (runners p)"
    unfolding aw [symmetric] by simp
  then have sub: "mset (settled p) + awaitedAll ?rs \<subseteq># mset [0..<nextIndex p]"
    using inv unfolding poolInv_def by (meson subset_mset.order_trans)
  have r: "Rejected \<in> set ?rs" using k(1) by (simp add: set_update_memI)
  have fin: "Finished \<in> set (runners p)" if "Finished \<in> set ?rs"
    using that member_update_cases by fastforce
  have len: "length ?rs = length (runners p)" by simp
  have "poolInv items workerCount p'"
    unfolding poolInv_def sel len
    using inv [unfolded poolInv_def] r fin sub by blast
  then show ?thesis by (simp add: p'_def)
qed

lemma poolInv_step:
  assumes "poolInv items workerCount p"
  shows "poolInv items workerCount (poolStep items p e)"
proof (cases e)
  case (Resume k)
  show ?thesis
    using assms poolInv_claim [OF assms, of k] poolInv_finish [OF assms, of k]
    by (simp add: Resume Let_def)
next
  case (Settle k ok)
  show ?thesis
  proof (cases "k < length (runners p)")
    case False
    then show ?thesis using assms by (simp add: Settle)
  next
    case True
    show ?thesis
    proof (cases "runners p ! k")
      case (Awaiting i)
      then show ?thesis
        using True poolInv_fulfil [OF assms True Awaiting] poolInv_reject [OF assms True Awaiting]
        by (simp add: Settle)
    qed (use assms True in \<open>simp_all add: Settle\<close>)
  qed
qed

lemma poolInv_run:
  "poolInv items workerCount p \<Longrightarrow> poolInv items workerCount (foldl (poolStep items) p events)"
  by (induction events arbitrary: p) (simp_all add: poolInv_step)

lemma poolInv_runPool: "poolInv items n (runPool items n events)"
  unfolding runPool_def by (rule poolInv_run) (rule poolInv_start)

lemma weight_update:
  "k < length rs \<Longrightarrow>
   sum_list (map weight (rs[k := r])) + weight (rs ! k) = sum_list (map weight rs) + weight r"
proof (induction rs arbitrary: k)
  case Nil
  then show ?case by simp
next
  case (Cons a rs)
  show ?case
  proof (cases k)
    case 0
    then show ?thesis by simp
  next
    case (Suc j)
    then have "j < length rs" using Cons.prems by simp
    from Cons.IH [OF this] show ?thesis using Suc by simp
  qed
qed

lemma awaitedAll_Finished: "list_all (\<lambda>r. r = Finished) rs \<Longrightarrow> awaitedAll rs = {#}"
  by (induction rs) auto

lemma fulfilled_complete:
  assumes inv: "poolInv items workerCount p" and pos: "0 < workerCount"
    and f: "poolPromise p = Fulfilled"
  shows "nextIndex p = length items
       \<and> calls p = map (\<lambda>i. (items ! i, i)) [0..<length items]
       \<and> mset (settled p) = mset [0..<length items]"
proof -
  have all: "list_all (\<lambda>r. r = Finished) (runners p)" and norej: "Rejected \<notin> set (runners p)"
    using f by (auto simp: poolPromise_def split: if_splits)
  have "runners p \<noteq> []" using inv pos by (auto simp: poolInv_def)
  then obtain r where "r \<in> set (runners p)" by (cases "runners p") auto
  then have "Finished \<in> set (runners p)" using all by (auto simp: list_all_iff)
  then have n: "nextIndex p = length items" using inv by (simp add: poolInv_def)
  have "mset (settled p) + awaitedAll (runners p) = mset [0..<nextIndex p]"
    using inv norej by (simp add: poolInv_def)
  then have "mset (settled p) = mset [0..<length items]"
    using awaitedAll_Finished [OF all] n by simp
  then show ?thesis using inv n by (simp add: poolInv_def)
qed

lemma progress:
  assumes norej: "Rejected \<notin> set (runners p)" and pending: "poolPromise p \<noteq> Fulfilled"
  shows "\<exists>e. work items (poolStep items p e) < work items p
            \<and> Rejected \<notin> set (runners (poolStep items p e))"
proof -
  have "\<not> list_all (\<lambda>r. r = Finished) (runners p)"
    using norej pending by (auto simp: poolPromise_def split: if_splits)
  then obtain k where k: "k < length (runners p)" "runners p ! k \<noteq> Finished"
    by (auto simp: list_all_iff in_set_conv_nth)
  have nr: "runners p ! k \<noteq> Rejected" using norej k(1) by (metis nth_mem)
  have keep: "Rejected \<notin> set ((runners p)[k := r])" if "r \<noteq> Rejected" for r
    using member_update_cases [of Rejected "runners p" k r] norej that by auto
  show ?thesis
  proof (cases "runners p ! k")
    case Ready
    show ?thesis
    proof (cases "nextIndex p < length items")
      case True
      have "sum_list (map weight ((runners p)[k := Awaiting (nextIndex p)])) + 2
              = sum_list (map weight (runners p)) + 3"
        using weight_update [OF k(1), of "Awaiting (nextIndex p)"] Ready by simp
      then have "work items (poolStep items p (Resume k)) < work items p"
        using True k(1) Ready by (simp add: work_def Let_def)
      moreover have "Rejected \<notin> set (runners (poolStep items p (Resume k)))"
        using True k(1) Ready keep [of "Awaiting (nextIndex p)"] by (simp add: Let_def)
      ultimately show ?thesis by blast
    next
      case False
      have "sum_list (map weight ((runners p)[k := Finished])) + 2
              = sum_list (map weight (runners p))"
        using weight_update [OF k(1), of Finished] Ready by simp
      then have "work items (poolStep items p (Resume k)) < work items p"
        using False k(1) Ready by (simp add: work_def)
      moreover have "Rejected \<notin> set (runners (poolStep items p (Resume k)))"
        using False k(1) Ready keep [of Finished] by simp
      ultimately show ?thesis by blast
    qed
  next
    case (Awaiting i)
    have "sum_list (map weight ((runners p)[k := Ready])) + 3
            = sum_list (map weight (runners p)) + 2"
      using weight_update [OF k(1), of Ready] Awaiting by simp
    then have "work items (poolStep items p (Settle k True)) < work items p"
      using k(1) Awaiting by (simp add: work_def)
    moreover have "Rejected \<notin> set (runners (poolStep items p (Settle k True)))"
      using k(1) Awaiting keep [of Ready] by simp
    ultimately show ?thesis by blast
  next
    case Finished
    then show ?thesis using k(2) by simp
  next
    case Rejected
    then show ?thesis using nr by simp
  qed
qed

lemma can_finish:
  "Rejected \<notin> set (runners p) \<Longrightarrow>
   \<exists>more. poolPromise (foldl (poolStep items) p more) = Fulfilled"
proof (induction "work items p" arbitrary: p rule: less_induct)
  case less
  show ?case
  proof (cases "poolPromise p = Fulfilled")
    case True
    then have "poolPromise (foldl (poolStep items) p []) = Fulfilled" by simp
    then show ?thesis by blast
  next
    case False
    from progress [OF less.prems False, of items]
    obtain e where e: "work items (poolStep items p e) < work items p"
      "Rejected \<notin> set (runners (poolStep items p e))" by blast
    from less.hyps [OF e] obtain more
      where "poolPromise (foldl (poolStep items) (poolStep items p e) more) = Fulfilled"
      by blast
    then have "poolPromise (foldl (poolStep items) p (e # more)) = Fulfilled" by simp
    then show ?thesis by blast
  qed
qed

lemma distinct_if_count_le_1: "(\<And>x. count (mset xs) x \<le> 1) \<Longrightarrow> distinct xs"
proof (induction xs)
  case Nil
  show ?case by simp
next
  case (Cons a xs)
  have "count (mset (a # xs)) a \<le> 1" by (rule Cons.prems)
  then have z: "count (mset xs) a = 0" by simp
  then have a: "a \<notin> set xs" by (simp add: count_eq_zero_iff)
  have "count (mset xs) x \<le> 1" for x
  proof (cases "x = a")
    case True
    show ?thesis unfolding True z by simp
  next
    case False
    then show ?thesis using Cons.prems [of x] by simp
  qed
  then have "distinct xs" by (rule Cons.IH)
  then show ?case using a by simp
qed

lemma distinct_below_upt:
  assumes "mset xs \<subseteq># mset [0..<n]"
  shows "distinct xs"
proof (rule distinct_if_count_le_1)
  fix x
  have "count (mset xs) x \<le> count (mset [0..<n]) x"
    using assms by (rule mset_subset_eq_count)
  also have "\<dots> \<le> 1" by (simp add: count_mset_set')
  finally show "count (mset xs) x \<le> 1" .
qed

lemma no_runner_no_step: "runners p = [] \<Longrightarrow> foldl (poolStep items) p events = p"
proof (induction events)
  case Nil
  show ?case by simp
next
  case (Cons e events)
  have "poolStep items p e = p" using Cons.prems by (cases e) simp_all
  then show ?case using Cons by simp
qed

lemma runPool_append:
  "runPool items n (events @ later) = foldl (poolStep items) (runPool items n events) later"
  by (simp add: runPool_def)

lemma Math_max_one:
  "Math_max (Num 1) (Num r) = Num (max 1 r)"
  "Math_max (Num 1) NaN = NaN"
  "Math_max (Num 1) PosInfinity = PosInfinity"
  "Math_max (Num 1) NegInfinity = Num 1"
  by simp_all

lemma runners_of_number:
  assumes "r < 2 ^ 32"
  shows "Array_from_length (Math_max (Num 1) (Num r)) = Returns (nat \<lfloor>max 1 r\<rfloor>)"
    and "0 < nat \<lfloor>max 1 r\<rfloor>"
proof -
  have "max 1 r < 4294967296" using assms by simp
  then have "\<lfloor>max 1 r\<rfloor> < 4294967296" by (simp only: floor_less_iff of_int_numeral)
  then have le: "\<not> 4294967295 < nat \<lfloor>max 1 r\<rfloor>" by linarith
  have c: "(2::nat) ^ 32 - 1 = 4294967295" by simp
  have "Array_from_length (Num (max 1 r)) = Returns (nat \<lfloor>max 1 r\<rfloor>)"
    unfolding Array_from_length.simps Let_def c using le by (rule if_not_P)
  then show "Array_from_length (Math_max (Num 1) (Num r)) = Returns (nat \<lfloor>max 1 r\<rfloor>)"
    by (simp only: Math_max.simps)
  have "1 \<le> \<lfloor>max 1 r\<rfloor>" by (simp add: le_floor_iff)
  then show "0 < nat \<lfloor>max 1 r\<rfloor>" by simp
qed

text \<open>
  The pool with runners. For every list of items, every number of runners \<open>n\<close> that
  \<^verbatim>\<open>Array.from\<close> has made and every order of events: the worker has been called, in this
  order, on exactly the indices below \<open>nextIndex\<close>, each once and with its item; no
  index has settled twice. When there is at least one runner and the pool's promise is
  fulfilled, the worker has been called exactly once on every index \<open>0..N-1\<close> and every
  one of these calls has fulfilled. As long as no worker has rejected, the run can be
  continued to a fulfilled promise. A worker count that is a number below \<open>2 ^ 32\<close> gives
  \<open>\<lfloor>max 1 W\<rfloor>\<close> runners, which is at least one; where \<^verbatim>\<open>Array.from\<close> throws,
  \<^verbatim>\<open>mapWithConcurrency\<close> does.
\<close>

theorem pool_exactly_once:
  "length (runners (runPool items n events)) = n
   \<and> nextIndex (runPool items n events) \<le> length items
   \<and> calls (runPool items n events)
       = map (\<lambda>i. (items ! i, i)) [0..<nextIndex (runPool items n events)]
   \<and> distinct (settled (runPool items n events))
   \<and> set (settled (runPool items n events)) \<subseteq> {0..<nextIndex (runPool items n events)}
   \<and> (0 < n \<and> poolPromise (runPool items n events) = Fulfilled \<longrightarrow>
        calls (runPool items n events) = map (\<lambda>i. (items ! i, i)) [0..<length items]
        \<and> mset (settled (runPool items n events)) = mset [0..<length items])
   \<and> (Rejected \<notin> set (runners (runPool items n events)) \<longrightarrow>
        (\<exists>more. poolPromise (runPool items n (events @ more)) = Fulfilled))
   \<and> (r < 2 ^ 32 \<longrightarrow>
        0 < nat \<lfloor>max 1 r\<rfloor>
        \<and> mapWithConcurrency items (Num r) events
            = Returns (runPool items (nat \<lfloor>max 1 r\<rfloor>) events))
   \<and> (Array_from_length (Math_max (Num 1) workerCount) = Throws e \<longrightarrow>
        mapWithConcurrency items workerCount events = Throws e)"
proof -
  let ?p = "runPool items n events"
  have inv: "poolInv items n ?p" by (rule poolInv_runPool)
  have sub: "mset (settled ?p) \<subseteq># mset [0..<nextIndex ?p]"
    using inv unfolding poolInv_def by (meson mset_subset_eq_add_left subset_mset.order_trans)
  have d: "distinct (settled ?p)"
    using sub by (rule distinct_below_upt)
  have s: "set (settled ?p) \<subseteq> {0..<nextIndex ?p}"
    using set_mset_mono [OF sub] by simp
  have f: "0 < n \<and> poolPromise ?p = Fulfilled \<longrightarrow>
        calls ?p = map (\<lambda>i. (items ! i, i)) [0..<length items]
        \<and> mset (settled ?p) = mset [0..<length items]"
    using fulfilled_complete [OF inv] by blast
  have l: "Rejected \<notin> set (runners ?p) \<longrightarrow>
        (\<exists>more. poolPromise (runPool items n (events @ more)) = Fulfilled)"
    using can_finish [of ?p items] by (simp add: runPool_append)
  have a: "length (runners ?p) = n"
    and b: "nextIndex ?p \<le> length items"
    and c: "calls ?p = map (\<lambda>i. (items ! i, i)) [0..<nextIndex ?p]"
    using inv by (simp_all add: poolInv_def)
  have g: "r < 2 ^ 32 \<longrightarrow>
        0 < nat \<lfloor>max 1 r\<rfloor>
        \<and> mapWithConcurrency items (Num r) events
            = Returns (runPool items (nat \<lfloor>max 1 r\<rfloor>) events)"
  proof
    assume r: "r < 2 ^ 32"
    have "mapWithConcurrency items (Num r) events
            = Returns (runPool items (nat \<lfloor>max 1 r\<rfloor>) events)"
      unfolding mapWithConcurrency_def Let_def runners_of_number(1) [OF r] by simp
    then show "0 < nat \<lfloor>max 1 r\<rfloor>
        \<and> mapWithConcurrency items (Num r) events
            = Returns (runPool items (nat \<lfloor>max 1 r\<rfloor>) events)"
      using runners_of_number(2) [OF r] by simp
  qed
  have t: "Array_from_length (Math_max (Num 1) workerCount) = Throws e \<longrightarrow>
        mapWithConcurrency items workerCount events = Throws e"
    by (simp add: mapWithConcurrency_def Let_def)
  show ?thesis using a b c d s f l g t by (intro conjI)
qed

lemma threeWorker_run:
  "runPool tenItems 3 threeWorkerSchedule =
     \<lparr> nextIndex = 10, runners = [Finished, Finished, Finished],
       calls = [(''A'', 0), (''B'', 1), (''C'', 2), (''D'', 3), (''E'', 4), (''F'', 5),
                (''G'', 6), (''H'', 7), (''I'', 8), (''J'', 9)],
       settled = [1, 0, 2, 4, 3, 5, 8, 6, 7, 9] \<rparr>"
  by (simp add: runPool_def startPool_def tenItems_def threeWorkerSchedule_def
      eval_nat_numeral Let_def)

theorem pool_exactly_once_witness:
  "mapWithConcurrency tenItems (Num 3) threeWorkerSchedule
     = Returns (runPool tenItems 3 threeWorkerSchedule)
   \<and> mapWithConcurrency tenItems (Num 2.5) threeWorkerSchedule
     = Returns (runPool tenItems 2 threeWorkerSchedule)
   \<and> mapWithConcurrency tenItems (Num (- 4)) threeWorkerSchedule
     = Returns (runPool tenItems 1 threeWorkerSchedule)
   \<and> mapWithConcurrency tenItems PosInfinity threeWorkerSchedule = Throws ''RangeError''
   \<and> poolPromise (runPool tenItems 3 threeWorkerSchedule) = Fulfilled
   \<and> length (runners (runPool tenItems 3 threeWorkerSchedule)) = 3
   \<and> map snd (calls (runPool tenItems 3 threeWorkerSchedule)) = [0..<10]
   \<and> settled (runPool tenItems 3 threeWorkerSchedule) = [1, 0, 2, 4, 3, 5, 8, 6, 7, 9]
   \<and> mset (settled (runPool tenItems 3 threeWorkerSchedule)) = mset [0..<10]"
proof -
  have f: "poolPromise (runPool tenItems 3 threeWorkerSchedule) = Fulfilled"
    by (simp add: threeWorker_run poolPromise_def)
  have n: "length tenItems = 10" by (simp add: tenItems_def)
  note th = pool_exactly_once [of tenItems 3 threeWorkerSchedule 3 PosInfinity "''RangeError''"]
  have f3: "\<lfloor>max 1 (3::real)\<rfloor> = 3" by simp
  have pos: "0 < (3::nat)" by simp
  have m3: "mapWithConcurrency tenItems (Num 3) threeWorkerSchedule
     = Returns (runPool tenItems 3 threeWorkerSchedule)"
    using th f3 by simp
  have f2: "nat \<lfloor>max 1 (2.5::real)\<rfloor> = 2" by (simp add: max_def)
  have m2: "mapWithConcurrency tenItems (Num 2.5) threeWorkerSchedule
     = Returns (runPool tenItems 2 threeWorkerSchedule)"
    using pool_exactly_once [of tenItems 3 threeWorkerSchedule "2.5" PosInfinity "''RangeError''"]
    unfolding f2 by simp
  have f1: "nat \<lfloor>max 1 (- 4::real)\<rfloor> = 1" by (simp add: max_def)
  have m1: "mapWithConcurrency tenItems (Num (- 4)) threeWorkerSchedule
     = Returns (runPool tenItems 1 threeWorkerSchedule)"
    using pool_exactly_once [of tenItems 3 threeWorkerSchedule "- 4" PosInfinity "''RangeError''"]
    unfolding f1 by simp
  have inf: "mapWithConcurrency tenItems PosInfinity threeWorkerSchedule = Throws ''RangeError''"
    using th by simp
  have l: "length (runners (runPool tenItems 3 threeWorkerSchedule)) = 3"
    using th by blast
  have both: "calls (runPool tenItems 3 threeWorkerSchedule)
                = map (\<lambda>i. (tenItems ! i, i)) [0..<length tenItems]
              \<and> mset (settled (runPool tenItems 3 threeWorkerSchedule))
                = mset [0..<length tenItems]"
    using th f pos by blast
  have c: "calls (runPool tenItems 3 threeWorkerSchedule)
             = map (\<lambda>i. (tenItems ! i, i)) [0..<10]"
    using both unfolding n by (rule conjunct1)
  have c': "map snd (calls (runPool tenItems 3 threeWorkerSchedule)) = [0..<10]"
    unfolding c by (simp add: comp_def)
  have m: "mset (settled (runPool tenItems 3 threeWorkerSchedule)) = mset [0..<10]"
    using both unfolding n by (rule conjunct2)
  have s: "settled (runPool tenItems 3 threeWorkerSchedule)
             = [1, 0, 2, 4, 3, 5, 8, 6, 7, 9]"
    by (simp add: threeWorker_run)
  show ?thesis using m3 m2 m1 inf f l c' s m by (intro conjI)
qed

text \<open>
  Claim C9, at the worker count \<^verbatim>\<open>NaN\<close> (\<^verbatim>\<open>--concurrency abc\<close>). \<^verbatim>\<open>Math.max(1, NaN)\<close>
  is \<^verbatim>\<open>NaN\<close> and \<^verbatim>\<open>Array.from\<close> makes no runner. Whatever the items and the events,
  \<^verbatim>\<open>mapWithConcurrency\<close> returns with the cursor at 0 and the worker called on no index,
  and \<^verbatim>\<open>Promise.all\<close> of no runner is fulfilled: the pool has returned with no item
  processed, where the claim has \<open>max 1 W\<close> workers call the worker once on every
  index \<open>0..N-1\<close> before the pool returns.
\<close>

theorem mapWithConcurrency_nan_no_runner:
  "Math_max (Num 1) NaN = NaN
   \<and> Array_from_length NaN = Returns 0
   \<and> mapWithConcurrency items NaN events
       = Returns \<lparr> nextIndex = 0, runners = [], calls = [], settled = [] \<rparr>
   \<and> poolPromise (runPool items 0 events) = Fulfilled
   \<and> calls (runPool items 0 events) = []"
proof -
  have z: "runPool items 0 events = \<lparr> nextIndex = 0, runners = [], calls = [], settled = [] \<rparr>"
    unfolding runPool_def startPool_def by (simp add: no_runner_no_step)
  have m: "mapWithConcurrency items NaN events
       = Returns \<lparr> nextIndex = 0, runners = [], calls = [], settled = [] \<rparr>"
    by (simp add: mapWithConcurrency_def z)
  have p: "poolPromise (runPool items 0 events) = Fulfilled"
    unfolding z by (simp add: poolPromise_def)
  have c: "calls (runPool items 0 events) = []"
    unfolding z by simp
  have a: "Math_max (Num 1) NaN = NaN" by simp
  have b: "Array_from_length NaN = Returns 0" by simp
  show ?thesis using a b m p c by (intro conjI)
qed

theorem mapWithConcurrency_nan_no_runner_witness:
  "length [''AAPL''] = 1
   \<and> mapWithConcurrency [''AAPL''] NaN [Resume 0, Settle 0 True, Resume 0]
       = Returns \<lparr> nextIndex = 0, runners = [], calls = [], settled = [] \<rparr>
   \<and> poolPromise (runPool [''AAPL''] 0 [Resume 0, Settle 0 True, Resume 0]) = Fulfilled
   \<and> calls (runPool [''AAPL''] 0 [Resume 0, Settle 0 True, Resume 0]) = []
   \<and> mapWithConcurrency [''AAPL''] (Num 1) [Resume 0, Settle 0 True, Resume 0]
       = Returns \<lparr> nextIndex = 1, runners = [Finished], calls = [(''AAPL'', 0)],
                   settled = [0] \<rparr>"
proof -
  have one: "mapWithConcurrency [''AAPL''] (Num 1) [Resume 0, Settle 0 True, Resume 0]
       = Returns \<lparr> nextIndex = 1, runners = [Finished], calls = [(''AAPL'', 0)],
                   settled = [0] \<rparr>"
    by (simp add: mapWithConcurrency_def runPool_def startPool_def Let_def)
  show ?thesis
    using mapWithConcurrency_nan_no_runner [of "[''AAPL'']" "[Resume 0, Settle 0 True, Resume 0]"]
      one
    by simp
qed

end
